theory Spec2Isabelle
  imports Main "HOL-Library.Sublist" "HOL-Library.Multiset" "HOL-Library.Char_ord"
    "HOL-Library.List_Lexorder" "HOL-Library.AList"
begin

section \<open>Python values\<close>

text \<open>
  The pipeline works on the objects that \<^verbatim>\<open>json.loads\<close> returns: \<^verbatim>\<open>None\<close>, booleans,
  integers, floats, strings, lists and dicts. A dict is an association list in insertion
  order; its keys are distinct, and a lookup reads the first binding. A \<^verbatim>\<open>str\<close> is the
  list of its UTF-8 bytes. No function of the pipeline computes with a number, and a
  float is kept as the number its literal denotes: \<open>FDec neg m e\<close> is \<open>m\<close> times ten
  to the power \<open>e\<close>, negated when \<open>neg\<close> holds.
\<close>

datatype pyfloat = FNaN | FInf bool | FDec bool nat int

datatype json =
    JNull
  | JBool bool
  | JInt int
  | JFloat pyfloat
  | JStr string
  | JArr "json list"
  | JObj "(string \<times> json) list"

datatype error =
    AttributeError | KeyError | TypeError | IndexError
  | JSONDecodeError | ValueError | RecursionError

text \<open>
  Truth value of an object, as \<^verbatim>\<open>if x:\<close> and \<^verbatim>\<open>not x\<close> test it. A float is false when it
  is zero. Python converts a literal to the nearest double, ties to even, so the literal
  of a number other than zero reads as zero when the number is at most half the smallest
  positive double, two to the power -1075.
\<close>

fun float_is_zero :: "pyfloat \<Rightarrow> bool" where
  "float_is_zero FNaN = False"
| "float_is_zero (FInf neg) = False"
| "float_is_zero (FDec neg m e) = (m = 0 \<or> (e < 0 \<and> m * 2 ^ 1075 \<le> 10 ^ nat (- e)))"

fun truthy :: "json \<Rightarrow> bool" where
  "truthy JNull = False"
| "truthy (JBool b) = b"
| "truthy (JInt i) = (i \<noteq> 0)"
| "truthy (JFloat x) = (\<not> float_is_zero x)"
| "truthy (JStr s) = (s \<noteq> [])"
| "truthy (JArr xs) = (xs \<noteq> [])"
| "truthy (JObj kvs) = (kvs \<noteq> [])"

text \<open>
  \<^verbatim>\<open>item.get(key, default)\<close>: only a dict has the method; on any other object the
  attribute access raises.
\<close>

definition dict_get :: "json \<Rightarrow> string \<Rightarrow> json \<Rightarrow> error + json" where
  "dict_get item k d =
     (case item of
        JObj kvs \<Rightarrow> Inr (case map_of kvs k of None \<Rightarrow> d | Some v \<Rightarrow> v)
      | _ \<Rightarrow> Inl AttributeError)"

section \<open>Structure validation (services.py)\<close>

text \<open>
  The loop of \<^verbatim>\<open>validate_structure\<close> that collects the names of the top-level entries
  whose \<^verbatim>\<open>type\<close> is \<^verbatim>\<open>"file"\<close>. Every comparison of the source has a \<^verbatim>\<open>str\<close> on one
  side, where Python's \<^verbatim>\<open>==\<close> on these objects is equality of the values.
\<close>

fun collect_file_names :: "json list \<Rightarrow> json list \<Rightarrow> error + json list" where
  "collect_file_names [] file_names = Inr file_names"
| "collect_file_names (item # items) file_names =
     (case dict_get item ''type'' JNull of
        Inl e \<Rightarrow> Inl e
      | Inr t \<Rightarrow>
          if t = JStr ''file'' then
            (case dict_get item ''name'' (JStr '''') of
               Inl e \<Rightarrow> Inl e
             | Inr n \<Rightarrow> collect_file_names items (file_names @ [n]))
          else collect_file_names items file_names)"

definition required_files :: "string list" where
  "required_files = [''README.md'', ''.gitignore'']"

definition validate_structure :: "json \<Rightarrow> error + bool" where
  "validate_structure structure =
     (case structure of
        JObj kvs \<Rightarrow>
          if map_of kvs ''name'' = None \<or> map_of kvs ''structure'' = None then Inr False
          else
            (case map_of kvs ''structure'' of
               Some (JArr items) \<Rightarrow>
                 (case collect_file_names items [] of
                    Inl e \<Rightarrow> Inl e
                  | Inr file_names \<Rightarrow>
                      Inr (list_all (\<lambda>req_file. JStr req_file \<in> set file_names)
                             required_files))
             | _ \<Rightarrow> Inr False)
      | _ \<Rightarrow> Inr False)"

text \<open>A top-level File node with a given name, and the shape of a well-formed entry.\<close>

fun is_dict :: "json \<Rightarrow> bool" where
  "is_dict (JObj kvs) = True"
| "is_dict _ = False"

definition is_file_named :: "string \<Rightarrow> json \<Rightarrow> bool" where
  "is_file_named n item =
     (case item of
        JObj kvs \<Rightarrow> map_of kvs ''type'' = Some (JStr ''file'') \<and>
                    map_of kvs ''name'' = Some (JStr n)
      | _ \<Rightarrow> False)"

section \<open>Strings\<close>

text \<open>
  \<^verbatim>\<open>str.lower\<close> and \<^verbatim>\<open>str.strip\<close> follow the Unicode tables. Every function below that
  calls them takes them as the parameters \<open>lower\<close> and \<open>strip\<close>. The two functions
  defined here are what they do on ASCII text, for the concrete instances: \<^verbatim>\<open>A\<close>-\<^verbatim>\<open>Z\<close>
  go to \<^verbatim>\<open>a\<close>-\<^verbatim>\<open>z\<close>, and the ASCII characters for which \<^verbatim>\<open>isspace\<close> holds (tab, line
  feed, vertical tab, form feed, carriage return, the separators 28 to 31 and the space)
  are removed from both ends.
\<close>

definition ascii_lower_char :: "char \<Rightarrow> char" where
  "ascii_lower_char c =
     (let n = (of_char c :: nat) in if 65 \<le> n \<and> n \<le> 90 then char_of (n + 32) else c)"

definition ascii_lower :: "string \<Rightarrow> string" where
  "ascii_lower s = map ascii_lower_char s"

definition ascii_isspace :: "char \<Rightarrow> bool" where
  "ascii_isspace c =
     (let n = (of_char c :: nat) in (9 \<le> n \<and> n \<le> 13) \<or> (28 \<le> n \<and> n \<le> 32))"

definition ascii_strip :: "string \<Rightarrow> string" where
  "ascii_strip s = rev (dropWhile ascii_isspace (rev (dropWhile ascii_isspace s)))"

text \<open>\<^verbatim>\<open>s.startswith(p)\<close> and the substring test \<^verbatim>\<open>sub in s\<close>.\<close>

definition startswith :: "string \<Rightarrow> string \<Rightarrow> bool" where
  "startswith s p = prefix p s"

fun str_in :: "string \<Rightarrow> string \<Rightarrow> bool" where
  "str_in sub [] = (sub = [])"
| "str_in sub (c # cs) = (prefix sub (c # cs) \<or> str_in sub cs)"

text \<open>\<^verbatim>\<open>s.split(sep)\<close> for a separator of one character.\<close>

function split_char :: "char \<Rightarrow> string \<Rightarrow> string list" where
  "split_char sep s =
     (case dropWhile (\<lambda>c. c \<noteq> sep) s of
        [] \<Rightarrow> [s]
      | _ # rest \<Rightarrow> takeWhile (\<lambda>c. c \<noteq> sep) s # split_char sep rest)"
  by pat_completeness auto
termination
proof (relation "measure (\<lambda>(sep, s). length s)")
  fix sep :: char and s :: string and x rest
  assume "dropWhile (\<lambda>c. c \<noteq> sep) s = x # rest"
  then have "length (x # rest) \<le> length s"
    by (metis length_dropWhile_le)
  then show "((sep, rest), (sep, s)) \<in> measure (\<lambda>(sep, s). length s)"
    by simp
qed simp

text \<open>\<^verbatim>\<open>s.split(sep, 1)\<close>: at most one split, at the first separator.\<close>

definition split_once :: "char \<Rightarrow> string \<Rightarrow> string list" where
  "split_once sep s =
     (case dropWhile (\<lambda>c. c \<noteq> sep) s of
        [] \<Rightarrow> [s]
      | _ # rest \<Rightarrow> [takeWhile (\<lambda>c. c \<noteq> sep) s, rest])"

text \<open>\<^verbatim>\<open>xs[i]\<close> for an index that is not negative.\<close>

definition index :: "'a list \<Rightarrow> nat \<Rightarrow> error + 'a" where
  "index xs i = (if i < length xs then Inr (xs ! i) else Inl IndexError)"

section \<open>Preferences (models.py, utils.py)\<close>

record ProjectPreferences =
  include_docs :: bool
  include_tests :: bool
  include_docker :: bool
  include_ci_cd :: bool
  custom_folders :: "string list"
  framework_specific :: bool

text \<open>The dataclass defaults; \<^verbatim>\<open>__post_init__\<close> replaces the missing folder list by \<^verbatim>\<open>[]\<close>.\<close>

definition default_preferences :: ProjectPreferences where
  "default_preferences =
     \<lparr>include_docs = True, include_tests = True, include_docker = False,
      include_ci_cd = False, custom_folders = [], framework_specific = True\<rparr>"

text \<open>The loop of \<^verbatim>\<open>parse_preferences\<close> over the lines of the text.\<close>

fun parse_custom_folders ::
  "(string \<Rightarrow> string) \<Rightarrow> string list \<Rightarrow> string list \<Rightarrow> error + string list" where
  "parse_custom_folders strip [] folders = Inr folders"
| "parse_custom_folders strip (line # lines) folders =
     (if startswith (strip line) ''folder:'' \<or> startswith (strip line) ''custom:'' then
        (case index (split_once (CHR '':'') line) 1 of
           Inl e \<Rightarrow> Inl e
         | Inr rest \<Rightarrow>
             (let folder_name = strip rest in
              if folder_name \<noteq> [] then
                parse_custom_folders strip lines (folders @ [folder_name])
              else parse_custom_folders strip lines folders))
      else parse_custom_folders strip lines folders)"

definition parse_preferences ::
  "(string \<Rightarrow> string) \<Rightarrow> (string \<Rightarrow> string) \<Rightarrow> string \<Rightarrow> error + ProjectPreferences" where
  "parse_preferences lower strip prefs_text =
     (let prefs = default_preferences in
      if strip prefs_text = [] then Inr prefs
      else
        (let prefs_lower = lower prefs_text;
             prefs = prefs\<lparr>include_docs :=
                       str_in ''docs'' prefs_lower \<or> str_in ''documentation'' prefs_lower\<rparr>;
             prefs = prefs\<lparr>include_tests := str_in ''test'' prefs_lower\<rparr>;
             prefs = prefs\<lparr>include_docker := str_in ''docker'' prefs_lower\<rparr>;
             prefs = prefs\<lparr>include_ci_cd :=
                       str_in ''ci'' prefs_lower \<or> str_in ''github actions'' prefs_lower\<rparr>
         in case parse_custom_folders strip (split_char (CHR ''\<newline>'') prefs_text) [] of
              Inl e \<Rightarrow> Inl e
            | Inr folders \<Rightarrow> Inr (prefs\<lparr>custom_folders := folders\<rparr>)))"

section \<open>Preference application (utils.py)\<close>

text \<open>The dict literals that \<^verbatim>\<open>apply_preferences\<close> appends.\<close>

definition folder_node :: "string \<Rightarrow> json list \<Rightarrow> json" where
  "folder_node n children =
     JObj [(''type'', JStr ''folder''), (''name'', JStr n), (''children'', JArr children)]"

definition file_node :: "string \<Rightarrow> json" where
  "file_node n = JObj [(''type'', JStr ''file''), (''name'', JStr n)]"

text \<open>
  \<^verbatim>\<open>any(item.get("name") == n for item in structure_list)\<close>: the generator stops at the
  first entry with the name, so an entry behind it is never asked for its name.
\<close>

fun any_named :: "string \<Rightarrow> json list \<Rightarrow> error + bool" where
  "any_named n [] = Inr False"
| "any_named n (item # items) =
     (case dict_get item ''name'' JNull of
        Inl e \<Rightarrow> Inl e
      | Inr v \<Rightarrow> if v = JStr n then Inr True else any_named n items)"

text \<open>
  \<^verbatim>\<open>if not any(...): structure_list.append(node)\<close>. The list is mutated in place; the model
  returns the list after the step. When the value under \<^verbatim>\<open>structure\<close> is not a list, a
  \<^verbatim>\<open>str\<close> or a dict fails at \<^verbatim>\<open>get\<close> on its first element or at \<^verbatim>\<open>append\<close>, and
  \<^verbatim>\<open>None\<close>, a boolean or an integer cannot be iterated.
\<close>

definition append_if_absent :: "string \<Rightarrow> json \<Rightarrow> json \<Rightarrow> error + json" where
  "append_if_absent n node structure_list =
     (case structure_list of
        JArr items \<Rightarrow>
          (case any_named n items of
             Inl e \<Rightarrow> Inl e
           | Inr found \<Rightarrow> Inr (if found then JArr items else JArr (items @ [node])))
      | JStr s \<Rightarrow> Inl AttributeError
      | JObj kvs \<Rightarrow> Inl AttributeError
      | _ \<Rightarrow> Inl TypeError)"

text \<open>The three blocks of \<^verbatim>\<open>apply_preferences\<close>: custom folders, Docker files, CI folder.\<close>

fun add_custom_folders :: "string list \<Rightarrow> json \<Rightarrow> error + json" where
  "add_custom_folders [] structure_list = Inr structure_list"
| "add_custom_folders (custom_folder # rest) structure_list =
     (case append_if_absent custom_folder (folder_node custom_folder []) structure_list of
        Inl e \<Rightarrow> Inl e
      | Inr structure_list' \<Rightarrow> add_custom_folders rest structure_list')"

definition docker_files :: "string list" where
  "docker_files = [''Dockerfile'', ''docker-compose.yml'', ''.dockerignore'']"

fun add_docker_files :: "string list \<Rightarrow> json \<Rightarrow> error + json" where
  "add_docker_files [] structure_list = Inr structure_list"
| "add_docker_files (docker_file # rest) structure_list =
     (case append_if_absent docker_file (file_node docker_file) structure_list of
        Inl e \<Rightarrow> Inl e
      | Inr structure_list' \<Rightarrow> add_docker_files rest structure_list')"

definition github_node :: json where
  "github_node = folder_node ''.github'' [folder_node ''workflows'' [file_node ''ci.yml'']]"

text \<open>
  \<^verbatim>\<open>apply_preferences\<close> returns the dict it was given, whose \<^verbatim>\<open>structure\<close> list has been
  extended in place: the result is the dict with the final list under that key. A
  \<^verbatim>\<open>ProjectPreferences\<close> object is always true, so \<^verbatim>\<open>not prefs\<close> holds for \<^verbatim>\<open>None\<close> only.
\<close>

definition apply_preferences :: "json \<Rightarrow> ProjectPreferences option \<Rightarrow> error + json" where
  "apply_preferences structure prefs =
     (case prefs of
        None \<Rightarrow> Inr structure
      | Some p \<Rightarrow>
          (case structure of
             JObj kvs \<Rightarrow>
               (case map_of kvs ''structure'' of
                  None \<Rightarrow> Inl KeyError
                | Some structure_list \<Rightarrow>
                    (case add_custom_folders (custom_folders p) structure_list of
                       Inl e \<Rightarrow> Inl e
                     | Inr l1 \<Rightarrow>
                         (case (if include_docker p then add_docker_files docker_files l1
                                else Inr l1) of
                            Inl e \<Rightarrow> Inl e
                          | Inr l2 \<Rightarrow>
                              (case (if include_ci_cd p
                                     then append_if_absent ''.github'' github_node l2
                                     else Inr l2) of
                                 Inl e \<Rightarrow> Inl e
                               | Inr l3 \<Rightarrow> Inr (JObj (AList.update ''structure'' l3 kvs))))))
           | _ \<Rightarrow> Inl TypeError))"

text \<open>
  Notions for stating the results: an entry with a given name, one guarded append on a
  list of dicts, the additions a preferences record asks for (in the order of the three
  blocks), a dict whose \<^verbatim>\<open>structure\<close> is a list of dicts, and that list.
\<close>

definition named :: "string \<Rightarrow> json \<Rightarrow> bool" where
  "named n item = (case item of JObj kvs \<Rightarrow> map_of kvs ''name'' = Some (JStr n) | _ \<Rightarrow> False)"

definition add1 :: "string \<times> json \<Rightarrow> json list \<Rightarrow> json list" where
  "add1 step items = (if list_ex (named (fst step)) items then items else items @ [snd step])"

definition additions :: "ProjectPreferences \<Rightarrow> (string \<times> json) list" where
  "additions p =
     map (\<lambda>n. (n, folder_node n [])) (custom_folders p) @
     (if include_docker p then map (\<lambda>n. (n, file_node n)) docker_files else []) @
     (if include_ci_cd p then [(''.github'', github_node)] else [])"

definition well_formed :: "json \<Rightarrow> bool" where
  "well_formed s =
     (case s of
        JObj kvs \<Rightarrow>
          (case map_of kvs ''structure'' of
             Some (JArr items) \<Rightarrow> list_all is_dict items
           | _ \<Rightarrow> False)
      | _ \<Rightarrow> False)"

definition top_level :: "json \<Rightarrow> json list" where
  "top_level s =
     (case s of
        JObj kvs \<Rightarrow> (case map_of kvs ''structure'' of Some (JArr items) \<Rightarrow> items | _ \<Rightarrow> [])
      | _ \<Rightarrow> [])"

text \<open>Every addition is a node that carries exactly the name it is guarded by.\<close>

definition steps_ok :: "(string \<times> json) list \<Rightarrow> bool" where
  "steps_ok steps = list_all (\<lambda>st. \<forall>m. named m (snd st) = (m = fst st)) steps"

text \<open>A validated structure and a preferences record, for the concrete instances below.\<close>

definition example_structure :: json where
  "example_structure =
     JObj [(''name'', JStr ''app''),
           (''structure'', JArr [file_node ''README.md'', file_node ''.gitignore''])]"

definition example_preferences :: ProjectPreferences where
  "example_preferences =
     \<lparr>include_docs = True, include_tests = True, include_docker = True,
      include_ci_cd = True, custom_folders = [''docs'', ''docs''], framework_specific = True\<rparr>"


section \<open>Formatting\<close>

text \<open>
  \<^verbatim>\<open>sep.join(xs)\<close>, the decimal digits of a natural number, and the text an f-string
  writes for a boolean.
\<close>

fun join :: "string \<Rightarrow> string list \<Rightarrow> string" where
  "join sep [] = []"
| "join sep [x] = x"
| "join sep (x # y # ys) = x @ sep @ join sep (y # ys)"

function str_nat :: "nat \<Rightarrow> string" where
  "str_nat n = (if n < 10 then [char_of (48 + n)]
                else str_nat (n div 10) @ [char_of (48 + n mod 10)])"
  by pat_completeness auto
termination
  by (relation "measure id") auto

definition str_bool :: "bool \<Rightarrow> string" where
  "str_bool b = (if b then ''True'' else ''False'')"

text \<open>
  The text an f-string writes for a value: a \<^verbatim>\<open>str\<close> is written as it is. What Python's
  \<^verbatim>\<open>str()\<close> writes for any other object is a parameter, \<open>fmt\<close>.
\<close>

definition py_str :: "(json \<Rightarrow> string) \<Rightarrow> json \<Rightarrow> string" where
  "py_str fmt v = (case v of JStr s \<Rightarrow> s | _ \<Rightarrow> fmt v)"

section \<open>Output parser (utils.py)\<close>

text \<open>
  \<^verbatim>\<open>re.search(r'\{.*\}', s, re.DOTALL).group()\<close>: the search starts at the first
  \<^verbatim>\<open>{\<close>, and the greedy \<^verbatim>\<open>.*\<close> runs to the last \<^verbatim>\<open>}\<close> of the text. There is a match
  when a \<^verbatim>\<open>}\<close> follows the first \<^verbatim>\<open>{\<close>.
\<close>

definition brace_span :: "string \<Rightarrow> string option" where
  "brace_span s =
     (case dropWhile (\<lambda>c. c \<noteq> CHR ''{'') s of
        [] \<Rightarrow> None
      | opening # after \<Rightarrow>
          if CHR ''}'' \<in> set after
          then Some (opening # rev (dropWhile (\<lambda>c. c \<noteq> CHR ''}'') (rev after)))
          else None)"

text \<open>
  \<^verbatim>\<open>parse_llm_output\<close>. The decoder \<^verbatim>\<open>json.loads\<close> is a parameter: \<open>decode s\<close> is the
  decoded object, or the exception that \<^verbatim>\<open>json.loads\<close> raises. The function catches
  \<^verbatim>\<open>JSONDecodeError\<close> and returns Python's \<^verbatim>\<open>None\<close>, here \<open>JNull\<close>; any other
  exception leaves the function.
\<close>

definition parse_llm_output ::
  "(string \<Rightarrow> error + json) \<Rightarrow> (string \<Rightarrow> string) \<Rightarrow> string \<Rightarrow> error + json" where
  "parse_llm_output decode strip llm_response =
     (case (case brace_span llm_response of
              Some json_str \<Rightarrow> decode json_str
            | None \<Rightarrow> decode (strip llm_response)) of
        Inr v \<Rightarrow> Inr v
      | Inl e \<Rightarrow> if e = JSONDecodeError then Inr JNull else Inl e)"

section \<open>Tree renderer (utils.py)\<close>

text \<open>
  The UTF-8 bytes of the four prefixes: \<^verbatim>\<open>U+251C U+2500 U+2500\<close> and a space,
  \<^verbatim>\<open>U+2514 U+2500 U+2500\<close> and a space, \<^verbatim>\<open>U+2502\<close> and three spaces, four spaces.
\<close>

definition branch_mid :: string where
  "branch_mid = [CHR 0xE2, CHR 0x94, CHR 0x9C, CHR 0xE2, CHR 0x94, CHR 0x80,
                 CHR 0xE2, CHR 0x94, CHR 0x80, CHR '' '']"

definition branch_last :: string where
  "branch_last = [CHR 0xE2, CHR 0x94, CHR 0x94, CHR 0xE2, CHR 0x94, CHR 0x80,
                  CHR 0xE2, CHR 0x94, CHR 0x80, CHR '' '']"

definition indent_mid :: string where
  "indent_mid = [CHR 0xE2, CHR 0x94, CHR 0x82, CHR '' '', CHR '' '', CHR '' '']"

definition indent_last :: string where
  "indent_last = ''    ''"

text \<open>
  \<^verbatim>\<open>_build_tree\<close>. \<open>build_tree\<close> is the call on the object found under \<^verbatim>\<open>structure\<close> or
  \<^verbatim>\<open>children\<close>, \<open>build_items\<close> the loop over a list; an entry is the last one when
  nothing follows it. Iterating a \<^verbatim>\<open>str\<close> or a dict yields strings, on which
  \<^verbatim>\<open>item.get\<close> raises; \<^verbatim>\<open>None\<close> and numbers cannot be iterated.
\<close>

function build_tree :: "(json \<Rightarrow> string) \<Rightarrow> json \<Rightarrow> string \<Rightarrow> error + string list"
  and build_items :: "(json \<Rightarrow> string) \<Rightarrow> json list \<Rightarrow> string \<Rightarrow> error + string list"
where
  "build_tree fmt (JArr items) current_indent = build_items fmt items current_indent"
| "build_tree fmt (JStr s) current_indent = (if s = [] then Inr [] else Inl AttributeError)"
| "build_tree fmt (JObj kvs) current_indent = (if kvs = [] then Inr [] else Inl AttributeError)"
| "build_tree fmt JNull current_indent = Inl TypeError"
| "build_tree fmt (JBool b) current_indent = Inl TypeError"
| "build_tree fmt (JInt i) current_indent = Inl TypeError"
| "build_tree fmt (JFloat x) current_indent = Inl TypeError"
| "build_items fmt [] current_indent = Inr []"
| "build_items fmt (item # rest) current_indent =
     (case item of
        JObj kvs \<Rightarrow>
          (let is_last = (rest = []);
               branch = (if is_last then branch_last else branch_mid);
               name = py_str fmt (case map_of kvs ''name'' of
                                    None \<Rightarrow> JStr ''unnamed'' | Some v \<Rightarrow> v)
           in if map_of kvs ''type'' = Some (JStr ''folder'') then
                (case (case map_of kvs ''children'' of
                         None \<Rightarrow> Inr []
                       | Some children \<Rightarrow>
                           if truthy children then
                             build_tree fmt children
                               (current_indent @ (if is_last then indent_last else indent_mid))
                           else Inr []) of
                   Inl e \<Rightarrow> Inl e
                 | Inr sub \<Rightarrow>
                     (case build_items fmt rest current_indent of
                        Inl e \<Rightarrow> Inl e
                      | Inr below \<Rightarrow>
                          Inr ((current_indent @ branch @ name @ ''/'') # sub @ below)))
              else
                (case build_items fmt rest current_indent of
                   Inl e \<Rightarrow> Inl e
                 | Inr below \<Rightarrow> Inr ((current_indent @ branch @ name) # below)))
      | _ \<Rightarrow> Inl AttributeError)"
  by pat_completeness auto
termination
proof -
  have sz: "size v < Suc (size_list (size_prod (\<lambda>_. 0) size) kvs)"
    if "map_of kvs k = Some v" for kvs :: "(string \<times> json) list" and k v
    using that by (induction kvs) (auto split: if_splits)
  show ?thesis
    by (relation "measure (\<lambda>x. case x of Inl (fmt, v, ind) \<Rightarrow> size v
                                   | Inr (fmt, vs, ind) \<Rightarrow> size_list size vs)")
       (auto dest: sz)
qed

definition structure_to_tree :: "(json \<Rightarrow> string) \<Rightarrow> json \<Rightarrow> error + string" where
  "structure_to_tree fmt structure =
     (if \<not> truthy structure then Inr ''Invalid structure''
      else
        (case structure of
           JObj kvs \<Rightarrow>
             (case map_of kvs ''name'' of
                None \<Rightarrow> Inl KeyError
              | Some n \<Rightarrow>
                  (let tree_lines = [py_str fmt n @ ''/''] in
                   case map_of kvs ''structure'' of
                     None \<Rightarrow> Inr (join ''\<newline>'' tree_lines)
                   | Some items \<Rightarrow>
                       (case build_tree fmt items [] of
                          Inl e \<Rightarrow> Inl e
                        | Inr lines \<Rightarrow> Inr (join ''\<newline>'' (tree_lines @ lines)))))
         | _ \<Rightarrow> Inl TypeError))"

section \<open>Example ranker (models.py, services.py)\<close>

text \<open>
  A catalog entry. The sentence model and the floating-point arithmetic on its vectors
  are parameters: \<open>encode text\<close> is the embedding, or \<open>None\<close> where the model raises,
  and \<open>cosine\<close> is the quotient that \<^verbatim>\<open>find_similar_repos\<close> computes from two
  embeddings. Nothing is assumed of the scores, which in Python are floats and may be
  \<^verbatim>\<open>nan\<close>.
\<close>

record repo =
  repo_description :: string
  repo_tech_stack :: "string list"
  repo_structure :: json

definition repo_text :: "repo \<Rightarrow> string" where
  "repo_text r = repo_description r @ '' '' @ join '' '' (repo_tech_stack r)"

fun score_repos ::
  "(string \<Rightarrow> 'v option) \<Rightarrow> ('v \<Rightarrow> 'v \<Rightarrow> 's) \<Rightarrow> 'v \<Rightarrow> repo list \<Rightarrow> ('s \<times> repo) list option"
where
  "score_repos encode cosine query_embedding [] = Some []"
| "score_repos encode cosine query_embedding (r # rest) =
     (case encode (repo_text r) of
        None \<Rightarrow> None
      | Some repo_embedding \<Rightarrow>
          (case score_repos encode cosine query_embedding rest of
             None \<Rightarrow> None
           | Some similarities \<Rightarrow>
               Some ((cosine query_embedding repo_embedding, r) # similarities)))"

text \<open>\<^verbatim>\<open>xs[:k]\<close> counts a negative \<open>k\<close> from the end.\<close>

definition slice_to :: "int \<Rightarrow> 'a list \<Rightarrow> 'a list" where
  "slice_to k xs = (if 0 \<le> k then take (nat k) xs else take (length xs - nat (- k)) xs)"

text \<open>
  \<^verbatim>\<open>find_similar_repos\<close>. What
  \<^verbatim>\<open>similarities.sort(key=lambda x: x[0], reverse=True)\<close> leaves in the list is the
  parameter \<open>sort_reverse\<close>.
\<close>

definition find_similar_repos ::
  "(string \<Rightarrow> 'v option) option \<Rightarrow> ('v \<Rightarrow> 'v \<Rightarrow> 's) \<Rightarrow>
     (('s \<times> repo) list \<Rightarrow> ('s \<times> repo) list) \<Rightarrow> string \<Rightarrow> string list \<Rightarrow>
     repo list \<Rightarrow> int \<Rightarrow> repo list" where
  "find_similar_repos sentence_model cosine sort_reverse project_desc tech_stack
     example_repos top_k =
     (case sentence_model of
        None \<Rightarrow> []
      | Some encode \<Rightarrow>
          (let query_text = project_desc @ '' '' @ join '' '' tech_stack in
           case encode query_text of
             None \<Rightarrow> []
           | Some query_embedding \<Rightarrow>
               (case score_repos encode cosine query_embedding example_repos of
                  None \<Rightarrow> []
                | Some similarities \<Rightarrow> map snd (slice_to top_k (sort_reverse similarities)))))"

text \<open>
  The sort on keys that are totally ordered, as floats other than \<^verbatim>\<open>nan\<close> are: the list
  is reversed, sorted by a stable ascending sort and reversed again. \<open>ranked\<close> is the
  same ranking on the entries themselves, for a score that is a function of the entry.
\<close>

definition stable_sort_reverse :: "('s::linorder \<times> 'a) list \<Rightarrow> ('s \<times> 'a) list" where
  "stable_sort_reverse xs = rev (sort_key fst (rev xs))"

definition ranked :: "('a \<Rightarrow> 's::linorder) \<Rightarrow> 'a list \<Rightarrow> 'a list" where
  "ranked f xs = rev (sort_key f (rev xs))"

section \<open>Prompt builder (utils.py) and the catalog (models.py)\<close>

text \<open>
  \<^verbatim>\<open>build_prompt\<close>: the block for the preferences (empty without preferences), the block
  for the ranked examples, numbered from 1 (empty without examples), and the f-string
  around them. The catalog is the list that \<^verbatim>\<open>get_example_repos\<close> returns.
\<close>

definition preferences_text :: "ProjectPreferences option \<Rightarrow> string" where
  \<open>preferences_text prefs =
     (case prefs of
        None \<Rightarrow> []
      | Some p \<Rightarrow>
          ''\<newline>'' @
          ''Additional Requirements:\<newline>'' @
          ''- Include documentation folder: '' @
          str_bool (include_docs p) @
          ''\<newline>'' @
          ''- Include tests folder: '' @
          str_bool (include_tests p) @
          ''\<newline>'' @
          ''- Include Docker support: '' @
          str_bool (include_docker p) @
          ''\<newline>'' @
          ''- Include CI/CD: '' @
          str_bool (include_ci_cd p) @
          ''\<newline>'' @
          ''- Custom folders: '' @
          (if custom_folders p \<noteq> [] then join '', '' (custom_folders p) else ''None'') @
          ''\<newline>'' @
          ''- Framework-specific structure: '' @
          str_bool (framework_specific p) @
          ''\<newline>'')\<close>

fun similar_examples_from :: "nat \<Rightarrow> repo list \<Rightarrow> string" where
  "similar_examples_from i [] = []"
| "similar_examples_from i (r # rest) =
     ''\<newline>Example '' @ str_nat i @ '':\<newline>'' @
     ''Description: '' @ repo_description r @ ''\<newline>'' @
     ''Tech Stack: '' @ join '', '' (repo_tech_stack r) @ ''\<newline>'' @
     similar_examples_from (Suc i) rest"

definition similar_examples :: "repo list \<Rightarrow> string" where
  "similar_examples similar_repos =
     (if similar_repos \<noteq> [] then
        ''\<newline>\<newline>Here are some similar project examples for reference:\<newline>'' @
        similar_examples_from 1 similar_repos
      else [])"

definition build_prompt ::
  "string \<Rightarrow> string list \<Rightarrow> ProjectPreferences option \<Rightarrow> repo list \<Rightarrow> string" where
  \<open>build_prompt project_desc tech_stack prefs similar_repos =
     ''You are an expert software architect. Create a standardized '' @
     ''project directory structure based on the following '' @
     ''requirements:\<newline>'' @
     ''\<newline>'' @
     ''Project Description: '' @
     project_desc @
     ''\<newline>'' @
     ''Tech Stack: '' @
     join '', '' tech_stack @
     ''\<newline>'' @
     preferences_text prefs @
     ''\<newline>'' @
     similar_examples similar_repos @
     ''\<newline>'' @
     ''\<newline>'' @
     ''Generate a comprehensive directory structure that follows best '' @
     ''practices for the given tech stack. The output must be a valid '' @
     ''JSON object with the following exact schema:\<newline>'' @
     ''\<newline>'' @
     ''{\<newline>'' @
     ''  "name": "project-name",\<newline>'' @
     ''  "structure": [\<newline>'' @
     ''    {"type": "file", "name": "README.md"},\<newline>'' @
     ''    {"type": "file", "name": ".gitignore"},\<newline>'' @
     ''    {"type": "folder", "name": "src", "children": [\<newline>'' @
     ''      {"type": "file", "name": "main.py"},\<newline>'' @
     ''      {"type": "folder", "name": "utils", "children": []}\<newline>'' @
     ''    ]}\<newline>'' @
     ''  ]\<newline>'' @
     ''}\<newline>'' @
     ''\<newline>'' @
     ''Rules:\<newline>'' @
     ''1. Always include README.md and .gitignore\<newline>'' @
     ''2. Use appropriate file extensions for the tech stack\<newline>'' @
     ''3. Follow language/framework conventions\<newline>'' @
     ''4. Include common configuration files\<newline>'' @
     ''5. Structure should be logical and scalable\<newline>'' @
     ''6. Use lowercase names with hyphens or underscores\<newline>'' @
     ''7. Include only the JSON, no additional text or explanations\<newline>'' @
     ''\<newline>'' @
     ''Generate the directory structure now:''\<close>

definition get_example_repos :: "repo list" where
  "get_example_repos =
     [\<lparr>repo_description = ''React TypeScript frontend with Node.js backend'',
       repo_tech_stack = [''React'', ''TypeScript'', ''Node.js'', ''Express''],
       repo_structure =
         JObj [(''name'', JStr ''fullstack-app''),
               (''structure'', JArr
           [file_node ''README.md'',
            file_node ''.gitignore'',
            file_node ''package.json'',
            folder_node ''frontend''
              [file_node ''package.json'',
               folder_node ''src''
                 [folder_node ''components'' [],
                  folder_node ''pages'' [],
                  folder_node ''utils'' [],
                  file_node ''App.tsx'',
                  file_node ''index.tsx''],
               folder_node ''public'' []],
            folder_node ''backend''
              [file_node ''package.json'',
               folder_node ''src''
                 [folder_node ''routes'' [],
                  folder_node ''models'' [],
                  folder_node ''middleware'' [],
                  file_node ''server.js'']],
            folder_node ''tests'' [],
            folder_node ''docs'' []])]\<rparr>,
      \<lparr>repo_description = ''Python Django REST API with PostgreSQL'',
       repo_tech_stack = [''Python'', ''Django'', ''PostgreSQL'', ''Redis''],
       repo_structure =
         JObj [(''name'', JStr ''django-api''),
               (''structure'', JArr
           [file_node ''README.md'',
            file_node ''.gitignore'',
            file_node ''requirements.txt'',
            file_node ''manage.py'',
            folder_node ''app''
              [file_node ''__init__.py'',
               file_node ''settings.py'',
               file_node ''urls.py'',
               file_node ''wsgi.py''],
            folder_node ''api''
              [file_node ''__init__.py'',
               file_node ''models.py'',
               file_node ''views.py'',
               file_node ''serializers.py'',
               file_node ''urls.py''],
            folder_node ''tests'' [],
            folder_node ''docs'' []])]\<rparr>]"

section \<open>Cache (services.py)\<close>

text \<open>
  \<^verbatim>\<open>prefs.__dict__\<close>, and \<^verbatim>\<open>make_cache_key\<close>. \<^verbatim>\<open>json.dumps(_, sort_keys=True)\<close> and
  \<^verbatim>\<open>hashlib.md5(_.encode()).hexdigest()\<close> are the parameters \<open>encode\<close> and \<open>digest\<close>.
  \<^verbatim>\<open>sorted\<close> compares strings by code point, which is the order of their UTF-8 bytes.
\<close>

definition prefs_dict :: "ProjectPreferences \<Rightarrow> json" where
  "prefs_dict p =
     JObj [(''include_docs'', JBool (include_docs p)),
           (''include_tests'', JBool (include_tests p)),
           (''include_docker'', JBool (include_docker p)),
           (''include_ci_cd'', JBool (include_ci_cd p)),
           (''custom_folders'', JArr (map JStr (custom_folders p))),
           (''framework_specific'', JBool (framework_specific p))]"

definition make_cache_key ::
  "(json \<Rightarrow> string) \<Rightarrow> (string \<Rightarrow> string) \<Rightarrow> (string \<Rightarrow> string) \<Rightarrow> (string \<Rightarrow> string) \<Rightarrow>
     string \<Rightarrow> string list \<Rightarrow> json option \<Rightarrow> string"
where
  "make_cache_key encode digest lower strip project_desc tech_stack prefs =
     (let cache_data =
            JObj [(''project_desc'', JStr (strip (lower project_desc))),
                  (''tech_stack'',
                     JArr (map JStr (sort (map (\<lambda>tech. strip (lower tech)) tech_stack)))),
                  (''prefs'', (case prefs of
                                 None \<Rightarrow> JObj []
                               | Some d \<Rightarrow> if truthy d then d else JObj []))];
          cache_string = encode cache_data
      in digest cache_string)"

text \<open>
  The table \<^verbatim>\<open>structures\<close> of the store: documents in insertion order. A search
  returns the matching documents in that order, and \<^verbatim>\<open>get_cached_structure\<close> returns
  \<^verbatim>\<open>None\<close> when there is none.
\<close>

record cache_entry =
  entry_cache_key :: string
  entry_project_id :: string
  entry_structure :: json
  entry_timestamp :: string

definition get_cached_structure :: "cache_entry list \<Rightarrow> string \<Rightarrow> json" where
  "get_cached_structure db cache_key =
     (case filter (\<lambda>e. entry_cache_key e = cache_key) db of
        [] \<Rightarrow> JNull
      | e # _ \<Rightarrow> entry_structure e)"

definition cache_structure ::
  "cache_entry list \<Rightarrow> string \<Rightarrow> string \<Rightarrow> json \<Rightarrow> string \<Rightarrow> cache_entry list" where
  "cache_structure db cache_key project_id structure now =
     db @ [\<lparr>entry_cache_key = cache_key, entry_project_id = project_id,
            entry_structure = structure, entry_timestamp = now\<rparr>]"

section \<open>Orchestrator (agent.py)\<close>

text \<open>
  The collaborators of the agent and the library functions it reaches.
  \<open>generate_structure n prompt\<close> is the answer of the generation service to its \<open>n\<close>-th
  call, \<open>None\<close> when the call fails; \<open>now_isoformat n\<close> is the time at which the \<open>n\<close>-th
  entry is stored.
\<close>

record ('v, 's) services =
  sentence_model :: "(string \<Rightarrow> 'v option) option"
  cosine_similarity :: "'v \<Rightarrow> 'v \<Rightarrow> 's"
  sort_similarities :: "('s \<times> repo) list \<Rightarrow> ('s \<times> repo) list"
  generate_structure :: "nat \<Rightarrow> string \<Rightarrow> string option"
  loads :: "string \<Rightarrow> error + json"
  dumps :: "json \<Rightarrow> string"
  md5_hexdigest :: "string \<Rightarrow> string"
  str_lower :: "string \<Rightarrow> string"
  str_strip :: "string \<Rightarrow> string"
  now_isoformat :: "nat \<Rightarrow> string"

text \<open>
  The state one request can change: the store, and a record of the calls that
  \<^verbatim>\<open>suggest_structure\<close> makes to the generation service, the parser, the validator and
  the preference applier, in order.
\<close>

datatype call = Generate string | Parse string | Validate json | Apply json

fun is_generate :: "call \<Rightarrow> bool" where
  "is_generate (Generate prompt) = True"
| "is_generate _ = False"

record world =
  cache_db :: "cache_entry list"
  calls :: "call list"

definition generations :: "world \<Rightarrow> nat" where
  "generations w = length (filter is_generate (calls w))"

definition log_call :: "call \<Rightarrow> world \<Rightarrow> world" where
  "log_call c w = w\<lparr>calls := calls w @ [c]\<rparr>"

text \<open>
  The key and the prompt of a request, and \<^verbatim>\<open>suggest_structure\<close>. The result \<open>JNull\<close> is
  Python's \<^verbatim>\<open>None\<close>. An exception anywhere in the body is caught and turned into
  \<^verbatim>\<open>None\<close>; \<^verbatim>\<open>find_similar_repos\<close> is called with its default \<^verbatim>\<open>top_k=2\<close>.
\<close>

definition request_key ::
  "('v, 's) services \<Rightarrow> string \<Rightarrow> string list \<Rightarrow> ProjectPreferences option \<Rightarrow> string" where
  "request_key sv project_desc tech_stack prefs =
     make_cache_key (dumps sv) (md5_hexdigest sv) (str_lower sv) (str_strip sv) project_desc
       tech_stack (map_option prefs_dict prefs)"

definition request_prompt ::
  "('v, 's) services \<Rightarrow> string \<Rightarrow> string list \<Rightarrow> ProjectPreferences option \<Rightarrow> string"
where
  "request_prompt sv project_desc tech_stack prefs =
     (let similar_repos =
            find_similar_repos (sentence_model sv) (cosine_similarity sv)
              (sort_similarities sv) project_desc tech_stack get_example_repos 2
      in build_prompt project_desc tech_stack prefs similar_repos)"

definition suggest_structure ::
  "('v, 's) services \<Rightarrow> world \<Rightarrow> string \<Rightarrow> string \<Rightarrow> string list \<Rightarrow>
     ProjectPreferences option \<Rightarrow> json \<times> world" where
  "suggest_structure sv w project_id project_desc tech_stack prefs =
     (let cache_key = request_key sv project_desc tech_stack prefs;
          cached_result = get_cached_structure (cache_db w) cache_key
      in if truthy cached_result then (cached_result, w)
         else
           (let prompt = request_prompt sv project_desc tech_stack prefs;
                llm_response = generate_structure sv (generations w) prompt;
                w1 = log_call (Generate prompt) w
            in case llm_response of
                 None \<Rightarrow> (JNull, w1)
               | Some response \<Rightarrow>
                   if response = [] then (JNull, w1)
                   else
                     (let w2 = log_call (Parse response) w1
                      in case parse_llm_output (loads sv) (str_strip sv) response of
                           Inl e \<Rightarrow> (JNull, w2)
                         | Inr structure \<Rightarrow>
                             if \<not> truthy structure then (JNull, w2)
                             else
                               (let w3 = log_call (Validate structure) w2
                                in case validate_structure structure of
                                     Inl e \<Rightarrow> (JNull, w3)
                                   | Inr valid \<Rightarrow>
                                       if \<not> valid then (JNull, w3)
                                       else
                                         (let w4 = log_call (Apply structure) w3
                                          in case apply_preferences structure prefs of
                                               Inl e \<Rightarrow> (JNull, w4)
                                             | Inr structure' \<Rightarrow>
                                                 (structure',
                                                  w4\<lparr>cache_db :=
                                                       cache_structure (cache_db w4)
                                                         cache_key project_id structure'
                                                         (now_isoformat sv
                                                            (length (cache_db w4)))\<rparr>))))))"

text \<open>
  The conditions under which a request that missed the store produces nothing: no
  answer or an empty answer, an answer on which the parser raises or which parses to
  nothing, or a parsed object that the validator rejects or fails on.
\<close>

definition pipeline_fails ::
  "('v, 's) services \<Rightarrow> world \<Rightarrow> string \<Rightarrow> string list \<Rightarrow> ProjectPreferences option \<Rightarrow> bool"
where
  "pipeline_fails sv w project_desc tech_stack prefs =
     (case generate_structure sv (generations w)
             (request_prompt sv project_desc tech_stack prefs) of
        None \<Rightarrow> True
      | Some response \<Rightarrow>
          response = [] \<or>
          (case parse_llm_output (loads sv) (str_strip sv) response of
             Inl e \<Rightarrow> True
           | Inr structure \<Rightarrow>
               \<not> truthy structure \<or> validate_structure structure \<noteq> Inr True))"

section \<open>A JSON decoder and encoder\<close>

text \<open>
  \<^verbatim>\<open>json.loads\<close> and \<^verbatim>\<open>json.dumps\<close> for the concrete instances below. The decoder follows
  the scanner of the \<^verbatim>\<open>json\<close> module: whitespace is space, tab, line feed and carriage
  return; a string may not hold a control character; \<^verbatim>\<open>\u\<close> escapes are decoded, a
  surrogate pair to one character; a number without fraction and exponent is an
  integer, and \<^verbatim>\<open>int\<close> raises \<^verbatim>\<open>ValueError\<close> on more than 4300 digits, the default
  limit; \<^verbatim>\<open>NaN\<close>, \<^verbatim>\<open>Infinity\<close> and \<^verbatim>\<open>-Infinity\<close> are accepted; a repeated key keeps its
  first position and its last value; anything but whitespace after the value is an
  error. The scanner enters a recursive call at every \<^verbatim>\<open>{\<close> and \<^verbatim>\<open>[\<close>, and raises
  \<^verbatim>\<open>RecursionError\<close> when the interpreter allows no further one: \<open>depth\<close> is the
  number of nested lists and dicts that the interpreter still allows when \<^verbatim>\<open>json.loads\<close>
  is called. The three mutually recursive functions count their calls down from
  \<open>2 * length s + 2\<close>, which they never use up: the loop over the elements of a list
  hands its input to the value parser with one call less left, and every other call is
  on a shorter input.
\<close>

definition utf8_encode :: "nat \<Rightarrow> string" where
  "utf8_encode cp =
     (if cp < 0x80 then [char_of cp]
      else if cp < 0x800 then [char_of (0xC0 + cp div 64), char_of (0x80 + cp mod 64)]
      else if cp < 0x10000 then
        [char_of (0xE0 + cp div 4096), char_of (0x80 + cp div 64 mod 64),
         char_of (0x80 + cp mod 64)]
      else
        [char_of (0xF0 + cp div 262144), char_of (0x80 + cp div 4096 mod 64),
         char_of (0x80 + cp div 64 mod 64), char_of (0x80 + cp mod 64)])"

definition hex_digit :: "char \<Rightarrow> nat option" where
  "hex_digit c =
     (let n = (of_char c :: nat) in
      if 48 \<le> n \<and> n \<le> 57 then Some (n - 48)
      else if 97 \<le> n \<and> n \<le> 102 then Some (n - 87)
      else if 65 \<le> n \<and> n \<le> 70 then Some (n - 55)
      else None)"

definition hex4 :: "string \<Rightarrow> (nat \<times> string) option" where
  "hex4 s =
     (case s of
        a # b # c # d # rest \<Rightarrow>
          (case (hex_digit a, hex_digit b, hex_digit c, hex_digit d) of
             (Some x, Some y, Some z, Some w) \<Rightarrow> Some (((x * 16 + y) * 16 + z) * 16 + w, rest)
           | _ \<Rightarrow> None)
      | _ \<Rightarrow> None)"

definition simple_escape :: "char \<Rightarrow> char option" where
  "simple_escape e =
     (if e = CHR 0x22 then Some (CHR 0x22)
      else if e = CHR 0x5C then Some (CHR 0x5C)
      else if e = CHR ''/'' then Some (CHR ''/'')
      else if e = CHR ''b'' then Some (CHR 0x08)
      else if e = CHR ''f'' then Some (CHR 0x0C)
      else if e = CHR ''n'' then Some (CHR 0x0A)
      else if e = CHR ''r'' then Some (CHR 0x0D)
      else if e = CHR ''t'' then Some (CHR 0x09)
      else None)"

definition unicode_escape :: "string \<Rightarrow> (string \<times> string) option" where
  "unicode_escape s =
     (case hex4 s of
        None \<Rightarrow> None
      | Some (hi, rest) \<Rightarrow>
          (case (if 0xD800 \<le> hi \<and> hi \<le> 0xDBFF \<and> prefix [CHR 0x5C, CHR ''u''] rest
                 then hex4 (drop 2 rest) else None) of
             Some (lo, rest') \<Rightarrow>
               if 0xDC00 \<le> lo \<and> lo \<le> 0xDFFF
               then Some (utf8_encode (0x10000 + (hi - 0xD800) * 1024 + (lo - 0xDC00)), rest')
               else Some (utf8_encode hi, rest)
           | None \<Rightarrow> Some (utf8_encode hi, rest)))"

function scan_string :: "string \<Rightarrow> (string \<times> string) option" where
  "scan_string [] = None"
| "scan_string (c # cs) =
     (if c = CHR 0x22 then Some ([], cs)
      else if c = CHR 0x5C then
        (case cs of
           [] \<Rightarrow> None
         | e # cs' \<Rightarrow>
             if e = CHR ''u'' then
               (case unicode_escape cs' of
                  None \<Rightarrow> None
                | Some (bs, rest) \<Rightarrow>
                    (case scan_string rest of
                       None \<Rightarrow> None
                     | Some (s, rest') \<Rightarrow> Some (bs @ s, rest')))
             else
               (case simple_escape e of
                  None \<Rightarrow> None
                | Some b \<Rightarrow>
                    (case scan_string cs' of
                       None \<Rightarrow> None
                     | Some (s, rest') \<Rightarrow> Some (b # s, rest'))))
      else if (of_char c :: nat) < 32 then None
      else
        (case scan_string cs of
           None \<Rightarrow> None
         | Some (s, rest') \<Rightarrow> Some (c # s, rest')))"
  by pat_completeness auto
termination
proof -
  have h4: "length rest < length s" if "hex4 s = Some (n, rest)" for s n rest
    using that by (auto simp: hex4_def split: list.splits option.splits)
  have ue: "length rest < length s" if "unicode_escape s = Some (bs, rest)" for s bs rest
    using that by (auto simp: unicode_escape_def split: option.splits if_splits dest!: h4)
  show ?thesis
    by (relation "measure length") (auto dest: ue)
qed

definition is_digit :: "char \<Rightarrow> bool" where
  "is_digit c = (48 \<le> (of_char c :: nat) \<and> (of_char c :: nat) \<le> 57)"

definition digits_value :: "string \<Rightarrow> nat" where
  "digits_value ds = foldl (\<lambda>acc d. acc * 10 + (of_char d - 48)) 0 ds"

definition scan_number :: "string \<Rightarrow> error + json \<times> string" where
  "scan_number s =
     (let (neg, s1) = (if prefix ''-'' s then (True, drop 1 s) else (False, s));
          int_digits = (if prefix ''0'' s1 then ''0'' else takeWhile is_digit s1);
          s2 = drop (length int_digits) s1;
          frac = (case s2 of
                    d # r \<Rightarrow> if d = CHR ''.'' \<and> takeWhile is_digit r \<noteq> []
                             then takeWhile is_digit r else []
                  | [] \<Rightarrow> []);
          s3 = (if frac = [] then s2 else drop (Suc (length frac)) s2);
          expo = (case s3 of
                    e # r \<Rightarrow>
                      if e = CHR ''e'' \<or> e = CHR ''E'' then
                        (let sg = (if prefix ''+'' r \<or> prefix ''-'' r then take 1 r else [])
                         in if takeWhile is_digit (drop (length sg) r) \<noteq> []
                            then e # sg @ takeWhile is_digit (drop (length sg) r) else [])
                      else []
                  | [] \<Rightarrow> []);
          s4 = drop (length expo) s3;
          exponent = (if expo = [] then 0
                      else if prefix ''-'' (drop 1 expo)
                        then - int (digits_value (drop 2 expo))
                      else int (digits_value (dropWhile (\<lambda>c. \<not> is_digit c) expo)))
      in if int_digits = [] then Inl JSONDecodeError
         else if frac = [] \<and> expo = [] then
           (if 4300 < length int_digits then Inl ValueError
            else Inr (JInt (if neg then - int (digits_value int_digits)
                            else int (digits_value int_digits)), s2))
         else Inr (JFloat (FDec neg (digits_value (int_digits @ frac))
                             (exponent - int (length frac))), s4))"

definition json_ws :: "char \<Rightarrow> bool" where
  "json_ws c = (c = CHR '' '' \<or> c = CHR 0x09 \<or> c = CHR 0x0A \<or> c = CHR 0x0D)"

definition skip_ws :: "string \<Rightarrow> string" where
  "skip_ws s = dropWhile json_ws s"

fun parse_value :: "nat \<Rightarrow> nat \<Rightarrow> string \<Rightarrow> error + json \<times> string"
  and parse_elements ::
    "nat \<Rightarrow> nat \<Rightarrow> json list \<Rightarrow> string \<Rightarrow> error + json \<times> string"
  and parse_members ::
    "nat \<Rightarrow> nat \<Rightarrow> (string \<times> json) list \<Rightarrow> string \<Rightarrow> error + json \<times> string"
where
  "parse_value 0 depth s = Inl RecursionError"
| "parse_value (Suc n) depth s =
     (case s of
        [] \<Rightarrow> Inl JSONDecodeError
      | c # cs \<Rightarrow>
          if c = CHR 0x22 then
            (case scan_string cs of
               None \<Rightarrow> Inl JSONDecodeError
             | Some (str, rest) \<Rightarrow> Inr (JStr str, rest))
          else if c = CHR ''{'' then
            (if depth = 0 then Inl RecursionError
             else
               (case skip_ws cs of
                  [] \<Rightarrow> Inl JSONDecodeError
                | d # rest \<Rightarrow> if d = CHR ''}'' then Inr (JObj [], rest)
                              else parse_members n (depth - 1) [] (d # rest)))
          else if c = CHR ''['' then
            (if depth = 0 then Inl RecursionError
             else
               (case skip_ws cs of
                  [] \<Rightarrow> Inl JSONDecodeError
                | d # rest \<Rightarrow> if d = CHR '']'' then Inr (JArr [], rest)
                              else parse_elements n (depth - 1) [] (d # rest)))
          else if prefix ''null'' s then Inr (JNull, drop 4 s)
          else if prefix ''true'' s then Inr (JBool True, drop 4 s)
          else if prefix ''false'' s then Inr (JBool False, drop 5 s)
          else if prefix ''NaN'' s then Inr (JFloat FNaN, drop 3 s)
          else if prefix ''Infinity'' s then Inr (JFloat (FInf False), drop 8 s)
          else if prefix ''-Infinity'' s then Inr (JFloat (FInf True), drop 9 s)
          else scan_number s)"
| "parse_elements 0 depth acc s = Inl RecursionError"
| "parse_elements (Suc n) depth acc s =
     (case parse_value n depth s of
        Inl e \<Rightarrow> Inl e
      | Inr (v, rest) \<Rightarrow>
          (case skip_ws rest of
             [] \<Rightarrow> Inl JSONDecodeError
           | d # rest' \<Rightarrow>
               if d = CHR '','' then parse_elements n depth (acc @ [v]) (skip_ws rest')
               else if d = CHR '']'' then Inr (JArr (acc @ [v]), rest')
               else Inl JSONDecodeError))"
| "parse_members 0 depth acc s = Inl RecursionError"
| "parse_members (Suc n) depth acc s =
     (case s of
        [] \<Rightarrow> Inl JSONDecodeError
      | q # cs \<Rightarrow>
          if q \<noteq> CHR 0x22 then Inl JSONDecodeError
          else
            (case scan_string cs of
               None \<Rightarrow> Inl JSONDecodeError
             | Some (k, rest) \<Rightarrow>
                 (case skip_ws rest of
                    [] \<Rightarrow> Inl JSONDecodeError
                  | colon # rest1 \<Rightarrow>
                      if colon \<noteq> CHR '':'' then Inl JSONDecodeError
                      else
                        (case parse_value n depth (skip_ws rest1) of
                           Inl e \<Rightarrow> Inl e
                         | Inr (v, rest2) \<Rightarrow>
                             (case skip_ws rest2 of
                                [] \<Rightarrow> Inl JSONDecodeError
                              | d # rest3 \<Rightarrow>
                                  if d = CHR '','' then
                                    parse_members n depth (AList.update k v acc)
                                      (skip_ws rest3)
                                  else if d = CHR ''}'' then
                                    Inr (JObj (AList.update k v acc), rest3)
                                  else Inl JSONDecodeError)))))"

definition json_loads :: "nat \<Rightarrow> string \<Rightarrow> error + json" where
  "json_loads depth s =
     (case parse_value (2 * length s + 2) depth (skip_ws s) of
        Inl e \<Rightarrow> Inl e
      | Inr (v, rest) \<Rightarrow> if skip_ws rest = [] then Inr v else Inl JSONDecodeError)"

text \<open>
  The encoder with \<^verbatim>\<open>sort_keys=True\<close>: separators \<^verbatim>\<open>", "\<close> and \<^verbatim>\<open>": "\<close>, every character
  outside the printable ASCII range escaped. A float is written as mantissa and exponent
  (Python writes the shortest literal that reads back as the same double).
\<close>

definition hex_char :: "nat \<Rightarrow> char" where
  "hex_char d = (if d < 10 then char_of (48 + d) else char_of (87 + d))"

definition u_escape :: "nat \<Rightarrow> string" where
  "u_escape cp =
     [CHR 0x5C, CHR ''u'', hex_char (cp div 4096 mod 16), hex_char (cp div 256 mod 16),
      hex_char (cp div 16 mod 16), hex_char (cp mod 16)]"

definition escape_code_point :: "nat \<Rightarrow> string" where
  "escape_code_point cp =
     (if cp < 0x10000 then u_escape cp
      else u_escape (0xD800 + (cp - 0x10000) div 1024) @
           u_escape (0xDC00 + (cp - 0x10000) mod 1024))"

definition continuation :: "string \<Rightarrow> nat \<Rightarrow> nat" where
  "continuation bs acc = foldl (\<lambda>a b. a * 64 + (of_char b) mod 64) acc bs"

function escape_chars :: "string \<Rightarrow> string" where
  "escape_chars [] = []"
| "escape_chars (c # cs) =
     (let n = (of_char c :: nat) in
      if c = CHR 0x22 then [CHR 0x5C, CHR 0x22] @ escape_chars cs
      else if c = CHR 0x5C then [CHR 0x5C, CHR 0x5C] @ escape_chars cs
      else if n = 10 then [CHR 0x5C, CHR ''n''] @ escape_chars cs
      else if n = 13 then [CHR 0x5C, CHR ''r''] @ escape_chars cs
      else if n = 9 then [CHR 0x5C, CHR ''t''] @ escape_chars cs
      else if n = 8 then [CHR 0x5C, CHR ''b''] @ escape_chars cs
      else if n = 12 then [CHR 0x5C, CHR ''f''] @ escape_chars cs
      else if n < 32 \<or> n = 127 then u_escape n @ escape_chars cs
      else if n < 128 then c # escape_chars cs
      else
        (let k = (if n < 0xE0 then 1 else if n < 0xF0 then 2 else 3 :: nat);
             lead = (if n < 0xE0 then n mod 32 else if n < 0xF0 then n mod 16 else n mod 8)
         in escape_code_point (continuation (take k cs) lead) @ escape_chars (drop k cs)))"
  by pat_completeness auto
termination
  by (relation "measure length") auto

definition dumps_str :: "string \<Rightarrow> string" where
  "dumps_str s = [CHR 0x22] @ escape_chars s @ [CHR 0x22]"

definition str_int :: "int \<Rightarrow> string" where
  "str_int i = (if i < 0 then ''-'' @ str_nat (nat (- i)) else str_nat (nat i))"

function json_dumps :: "json \<Rightarrow> string" where
  "json_dumps JNull = ''null''"
| "json_dumps (JBool b) = (if b then ''true'' else ''false'')"
| "json_dumps (JInt i) = str_int i"
| "json_dumps (JFloat FNaN) = ''NaN''"
| "json_dumps (JFloat (FInf neg)) = (if neg then ''-Infinity'' else ''Infinity'')"
| "json_dumps (JFloat (FDec neg m e)) = (if neg then ''-'' else []) @ str_nat m @ ''e'' @ str_int e"
| "json_dumps (JStr s) = dumps_str s"
| "json_dumps (JArr xs) = ''['' @ join '', '' (map json_dumps xs) @ '']''"
| "json_dumps (JObj kvs) =
     ''{'' @ join '', '' (map (\<lambda>(k, v). dumps_str k @ '': '' @ json_dumps v)
                              (sort_key fst kvs)) @ ''}''"
  by pat_completeness auto
termination
proof -
  have sz: "size v < Suc (size_list (size_prod (\<lambda>_. 0) size) kvs)"
    if "(k, v) \<in> set kvs" for kvs :: "(string \<times> json) list" and k v
    using that by (induction kvs) auto
  show ?thesis
    by (relation "measure size") (auto dest: sz simp: less_Suc_eq_le size_list_estimation')
qed

section \<open>Concrete instances\<close>

text \<open>
  An answer of the generation service that wraps a valid structure in prose, an answer
  that the validator rejects, services built from them (the digest is the identity, so a
  key is the canonical text itself; the string functions are the ASCII ones, the sort is
  the stable one, and the decoder has room for a hundred nested lists and dicts, where
  the texts of the instances nest three), the state before the first request, and a catalog in which two entries
  get the same score.
\<close>

definition example_response :: string where
  \<open>example_response =
     ''Here is your structure:\<newline>'' @
     ''{"name": "shop", "structure": ['' @
     ''{"type": "file", "name": "README.md"}, '' @
     ''{"type": "file", "name": ".gitignore"}, '' @
     ''{"type": "folder", "name": "src", "children": []}]}\<newline>'' @
     ''Enjoy!''\<close>

definition rejected_response :: string where
  \<open>rejected_response = ''{"name":"x","structure":[]}''\<close>

definition example_services :: "(string, nat) services" where
  "example_services =
     \<lparr>sentence_model = Some (\<lambda>text. Some text),
      cosine_similarity = (\<lambda>q e. length (filter (\<lambda>c. c \<in> set q) e)),
      sort_similarities = stable_sort_reverse,
      generate_structure = (\<lambda>n prompt. Some example_response),
      loads = json_loads 100,
      dumps = json_dumps,
      md5_hexdigest = (\<lambda>s. s),
      str_lower = ascii_lower,
      str_strip = ascii_strip,
      now_isoformat = (\<lambda>n. ''2024-01-01T00:00:0'' @ str_nat n)\<rparr>"

definition rejecting_services :: "(string, nat) services" where
  "rejecting_services =
     example_services\<lparr>generate_structure := (\<lambda>n prompt. Some rejected_response)\<rparr>"

definition empty_world :: world where
  "empty_world = \<lparr>cache_db = [], calls = []\<rparr>"

definition tie_catalog :: "repo list" where
  "tie_catalog =
     [\<lparr>repo_description = ''bb'', repo_tech_stack = [], repo_structure = JNull\<rparr>,
      \<lparr>repo_description = ''a'', repo_tech_stack = [], repo_structure = JNull\<rparr>,
      \<lparr>repo_description = ''cc'', repo_tech_stack = [], repo_structure = JNull\<rparr>]"

section \<open>Validation: results\<close>

lemma dict_get_is_dict:
  "dict_get item k d = Inr v \<Longrightarrow> is_dict item"
  by (cases item) (simp_all add: dict_get_def)

lemma collect_file_names_error:
  "(\<exists>e. collect_file_names items acc = Inl e) \<longleftrightarrow> \<not> list_all is_dict items"
proof (induction items arbitrary: acc)
  case Nil
  show ?case by simp
next
  case (Cons item items)
  show ?case
  proof (cases item)
    case (JObj kvs)
    then show ?thesis using Cons.IH by (simp add: dict_get_def)
  qed (simp_all add: dict_get_def)
qed

lemma collect_file_names_set:
  "collect_file_names items acc = Inr names \<Longrightarrow> n \<noteq> [] \<Longrightarrow>
     JStr n \<in> set names \<longleftrightarrow> JStr n \<in> set acc \<or> list_ex (is_file_named n) items"
proof (induction items arbitrary: acc)
  case Nil
  then show ?case by simp
next
  case (Cons item items)
  show ?case
  proof (cases item)
    case (JObj kvs)
    show ?thesis
    proof (cases "map_of kvs ''type'' = Some (JStr ''file'')")
      case True
      with JObj Cons.prems(1)
      have rec: "collect_file_names items
                   (acc @ [case map_of kvs ''name'' of None \<Rightarrow> JStr '''' | Some v \<Rightarrow> v]) = Inr names"
        by (simp add: dict_get_def)
      from Cons.IH [OF rec Cons.prems(2)] JObj True Cons.prems(2) show ?thesis
        by (auto simp: is_file_named_def split: option.splits)
    next
      case False
      with JObj Cons.prems(1) have rec: "collect_file_names items acc = Inr names"
        by (auto simp: dict_get_def split: option.splits if_splits)
      from Cons.IH [OF rec Cons.prems(2)] JObj False show ?thesis
        by (auto simp: is_file_named_def)
    qed
  qed (use Cons.prems in \<open>simp_all add: dict_get_def\<close>)
qed

lemma validate_structure_true_iff:
  "validate_structure c = Inr True \<longleftrightarrow>
     (\<exists>kvs items. c = JObj kvs \<and> map_of kvs ''name'' \<noteq> None \<and>
        map_of kvs ''structure'' = Some (JArr items) \<and>
        list_all is_dict items \<and>
        list_ex (is_file_named ''README.md'') items \<and>
        list_ex (is_file_named ''.gitignore'') items)"
proof (cases c)
  case (JObj kvs)
  show ?thesis
  proof (cases "map_of kvs ''structure''")
    case None
    with JObj show ?thesis by (simp add: validate_structure_def)
  next
    case (Some s)
    show ?thesis
    proof (cases s)
      case (JArr items)
      show ?thesis
      proof (cases "collect_file_names items []")
        case (Inl e)
        then have "\<not> list_all is_dict items"
          using collect_file_names_error [of items "[]"] by blast
        with JObj Some JArr Inl show ?thesis
          by (simp add: validate_structure_def)
      next
        case (Inr names)
        then have ok: "list_all is_dict items"
          using collect_file_names_error [of items "[]"] by auto
        have a: "JStr ''README.md'' \<in> set names \<longleftrightarrow>
                   list_ex (is_file_named ''README.md'') items"
          using collect_file_names_set [OF Inr, of "''README.md''"] by simp
        have b: "JStr ''.gitignore'' \<in> set names \<longleftrightarrow>
                   list_ex (is_file_named ''.gitignore'') items"
          using collect_file_names_set [OF Inr, of "''.gitignore''"] by simp
        from JObj Some JArr Inr ok a b show ?thesis
          by (auto simp: validate_structure_def required_files_def)
      qed
    qed (use JObj Some in \<open>auto simp: validate_structure_def\<close>)
  qed
qed (simp_all add: validate_structure_def)

text \<open>
  C1, at a candidate the generation service can return. The top-level sequence holds a
  folder with both required files inside it and, next to the folder, a bare string
  instead of a node. No required file is at the top level, so the validator is to answer
  false; the loop calls \<^verbatim>\<open>item.get\<close> on the string and the call raises instead.
\<close>

theorem validate_structure_raises_on_bare_entry:
  "validate_structure
     (JObj [(''name'', JStr ''x''),
            (''structure'', JArr
               [JObj [(''type'', JStr ''folder''), (''name'', JStr ''docs''),
                      (''children'', JArr
                         [JObj [(''type'', JStr ''file''), (''name'', JStr ''README.md'')],
                          JObj [(''type'', JStr ''file''), (''name'', JStr ''.gitignore'')]])],
                JStr ''notes.txt''])])
   = Inl AttributeError"
  by (simp add: validate_structure_def dict_get_def)

section \<open>Preference parsing: results\<close>






lemma parse_preferences_blank:
  "strip prefs_text = [] \<Longrightarrow>
   parse_preferences lower strip prefs_text = Inr default_preferences"
  by (simp add: parse_preferences_def)



section \<open>Preference application: results\<close>

lemma any_named_dicts:
  "list_all is_dict items \<Longrightarrow> any_named n items = Inr (list_ex (named n) items)"
proof (induction items)
  case Nil
  show ?case by simp
next
  case (Cons item items)
  then show ?case
    by (cases item) (auto simp: dict_get_def named_def split: option.splits)
qed

lemma append_if_absent_dicts:
  "list_all is_dict items \<Longrightarrow>
     append_if_absent n node (JArr items) = Inr (JArr (add1 (n, node) items))"
  by (simp add: append_if_absent_def any_named_dicts add1_def)

lemma add1_dicts:
  "list_all is_dict items \<Longrightarrow> is_dict (snd step) \<Longrightarrow> list_all is_dict (add1 step items)"
  by (simp add: add1_def)

lemma fold_add1_dicts:
  "list_all is_dict items \<Longrightarrow> list_all (\<lambda>st. is_dict (snd st)) steps \<Longrightarrow>
     list_all is_dict (fold add1 steps items)"
  by (induction steps arbitrary: items) (simp_all add: add1_dicts)

lemma add_custom_folders_dicts:
  "list_all is_dict items \<Longrightarrow>
     add_custom_folders cfs (JArr items) =
       Inr (JArr (fold add1 (map (\<lambda>n. (n, folder_node n [])) cfs) items))"
proof (induction cfs arbitrary: items)
  case Nil
  show ?case by simp
next
  case (Cons cf cfs)
  have "list_all is_dict (add1 (cf, folder_node cf []) items)"
    using Cons.prems by (simp add: add1_dicts folder_node_def)
  from Cons.IH [OF this] Cons.prems show ?case
    by (simp add: append_if_absent_dicts)
qed

lemma add_docker_files_dicts:
  "list_all is_dict items \<Longrightarrow>
     add_docker_files fs (JArr items) =
       Inr (JArr (fold add1 (map (\<lambda>n. (n, file_node n)) fs) items))"
proof (induction fs arbitrary: items)
  case Nil
  show ?case by simp
next
  case (Cons f fs)
  have "list_all is_dict (add1 (f, file_node f) items)"
    using Cons.prems by (simp add: add1_dicts file_node_def)
  from Cons.IH [OF this] Cons.prems show ?case
    by (simp add: append_if_absent_dicts)
qed

lemma apply_preferences_dicts:
  assumes "map_of kvs ''structure'' = Some (JArr items)" and "list_all is_dict items"
  shows "apply_preferences (JObj kvs) (Some p) =
           Inr (JObj (AList.update ''structure'' (JArr (fold add1 (additions p) items)) kvs))"
proof -
  let ?l1 = "fold add1 (map (\<lambda>n. (n, folder_node n [])) (custom_folders p)) items"
  let ?l2 = "fold add1 (map (\<lambda>n. (n, file_node n)) docker_files) ?l1"
  have d1: "list_all is_dict ?l1"
    using assms(2) by (rule fold_add1_dicts) (simp add: list_all_iff folder_node_def)
  have d2: "list_all is_dict ?l2"
    using d1 by (rule fold_add1_dicts) (simp add: list_all_iff file_node_def)
  show ?thesis
  proof (cases "include_docker p")
    case True
    with assms d1 d2 show ?thesis
      by (simp add: apply_preferences_def additions_def add_custom_folders_dicts
            add_docker_files_dicts append_if_absent_dicts)
  next
    case False
    with assms d1 show ?thesis
      by (simp add: apply_preferences_def additions_def add_custom_folders_dicts
            append_if_absent_dicts)
  qed
qed

lemma prefix_add1: "prefix items (add1 step items)"
  by (simp add: add1_def)

lemma prefix_fold_add1: "prefix items (fold add1 steps items)"
proof (induction steps arbitrary: items)
  case Nil
  show ?case by simp
next
  case (Cons step steps)
  have "prefix items (add1 step items)" by (rule prefix_add1)
  also have "prefix (add1 step items) (fold add1 steps (add1 step items))" by (rule Cons.IH)
  finally show ?case by simp
qed

lemma list_ex_prefix: "prefix xs ys \<Longrightarrow> list_ex P xs \<Longrightarrow> list_ex P ys"
  by (auto simp: prefix_def)

lemma named_after_add1:
  "named (fst step) (snd step) \<Longrightarrow> list_ex (named (fst step)) (add1 step items)"
  by (simp add: add1_def)

lemma fold_add1_present:
  "steps_ok steps \<Longrightarrow> st \<in> set steps \<Longrightarrow> list_ex (named (fst st)) (fold add1 steps items)"
proof (induction steps arbitrary: items)
  case Nil
  then show ?case by simp
next
  case (Cons step steps)
  show ?case
  proof (cases "st = step")
    case True
    have "list_ex (named (fst step)) (add1 step items)"
      using Cons.prems(1) by (intro named_after_add1) (simp add: steps_ok_def)
    with True show ?thesis
      using list_ex_prefix [OF prefix_fold_add1] by simp
  next
    case False
    with Cons show ?thesis by (simp add: steps_ok_def)
  qed
qed

lemma fold_add1_all_present:
  "\<forall>st \<in> set steps. list_ex (named (fst st)) items \<Longrightarrow> fold add1 steps items = items"
  by (induction steps) (simp_all add: add1_def)

lemma fold_add1_idem:
  "steps_ok steps \<Longrightarrow> fold add1 steps (fold add1 steps items) = fold add1 steps items"
  by (intro fold_add1_all_present ballI fold_add1_present)

lemma steps_ok_additions: "steps_ok (additions p)"
  by (auto simp: steps_ok_def additions_def list_all_iff named_def folder_node_def
        file_node_def github_node_def docker_files_def)

lemma filter_named_add1:
  "filter (named n) (add1 step items) =
     (if list_ex (named (fst step)) items \<or> \<not> named n (snd step)
      then filter (named n) items else filter (named n) items @ [snd step])"
  by (simp add: add1_def)

lemma count_named_fold_add1:
  "steps_ok steps \<Longrightarrow>
     length (filter (named n) (fold add1 steps items)) =
       (if list_ex (named n) items then length (filter (named n) items)
        else if n \<in> fst ` set steps then 1 else 0)"
proof (induction steps arbitrary: items)
  case Nil
  show ?case by (auto simp: filter_empty_conv list_ex_iff)
next
  case (Cons step steps)
  then have ok: "steps_ok steps" and nm: "\<And>m. named m (snd step) = (m = fst step)"
    by (simp_all add: steps_ok_def)
  show ?case
  proof (cases "list_ex (named n) items")
    case True
    then have "list_ex (named n) (add1 step items)"
      using list_ex_prefix [OF prefix_add1] by blast
    moreover have "filter (named n) (add1 step items) = filter (named n) items"
      using True by (auto simp: filter_named_add1 nm)
    ultimately show ?thesis using True Cons.IH [OF ok, of "add1 step items"] by simp
  next
    case False
    show ?thesis
    proof (cases "n = fst step")
      case True
      with False have "add1 step items = items @ [snd step]" by (simp add: add1_def)
      moreover from False have "filter (named n) items = []"
        by (auto simp: filter_empty_conv list_ex_iff)
      ultimately show ?thesis
        using True False nm Cons.IH [OF ok, of "add1 step items"] by simp
    next
      case neq: False
      then have "\<not> named n (snd step)" by (simp add: nm)
      then have f: "filter (named n) (add1 step items) = filter (named n) items"
        by (simp add: filter_named_add1)
      have "\<not> list_ex (named n) (add1 step items)"
      proof
        assume "list_ex (named n) (add1 step items)"
        then have "filter (named n) (add1 step items) \<noteq> []"
          by (auto simp: filter_empty_conv list_ex_iff)
        with f False show False by (auto simp: filter_empty_conv list_ex_iff)
      qed
      with False neq Cons.IH [OF ok, of "add1 step items"] show ?thesis by simp
    qed
  qed
qed

lemma validated_well_formed: "validate_structure s = Inr True \<Longrightarrow> well_formed s"
  by (auto simp: validate_structure_true_iff well_formed_def)

lemma well_formedE:
  assumes "well_formed s"
  obtains kvs items where "s = JObj kvs" and "map_of kvs ''structure'' = Some (JArr items)"
    and "list_all is_dict items"
proof (cases s)
  case (JObj kvs)
  show ?thesis
  proof (cases "map_of kvs ''structure''")
    case None
    with JObj assms show ?thesis by (simp add: well_formed_def)
  next
    case (Some l)
    with JObj assms that show ?thesis by (cases l) (simp_all add: well_formed_def)
  qed
qed (use assms in \<open>simp_all add: well_formed_def\<close>)

lemma named_is_dict: "named n item \<Longrightarrow> is_dict item"
  by (cases item) (simp_all add: named_def)

lemma steps_ok_dicts:
  assumes "steps_ok steps"
  shows "list_all (\<lambda>st. is_dict (snd st)) steps"
proof -
  have "is_dict (snd st)" if "st \<in> set steps" for st
  proof -
    from assms that have "named (fst st) (snd st)"
      by (simp add: steps_ok_def list_all_iff)
    then show ?thesis by (rule named_is_dict)
  qed
  then show ?thesis by (simp add: list_all_iff)
qed

lemma append_if_absent_appends:
  "append_if_absent n node l = Inr l' \<Longrightarrow>
     \<exists>items added. l = JArr items \<and> l' = JArr (items @ added)"
  by (cases l) (auto simp: append_if_absent_def split: sum.splits if_splits)

lemma add_custom_folders_appends:
  "add_custom_folders cfs l = Inr l' \<Longrightarrow>
     l' = l \<or> (\<exists>items added. l = JArr items \<and> l' = JArr (items @ added))"
proof (induction cfs arbitrary: l)
  case Nil
  then show ?case by simp
next
  case (Cons cf cfs)
  then obtain l1 where a: "append_if_absent cf (folder_node cf []) l = Inr l1"
    and b: "add_custom_folders cfs l1 = Inr l'"
    by (auto split: sum.splits)
  from append_if_absent_appends [OF a] obtain items added
    where l: "l = JArr items" and l1: "l1 = JArr (items @ added)" by blast
  from Cons.IH [OF b] l l1 show ?case by auto
qed

lemma add_docker_files_appends:
  "add_docker_files fs l = Inr l' \<Longrightarrow>
     l' = l \<or> (\<exists>items added. l = JArr items \<and> l' = JArr (items @ added))"
proof (induction fs arbitrary: l)
  case Nil
  then show ?case by simp
next
  case (Cons f fs)
  then obtain l1 where a: "append_if_absent f (file_node f) l = Inr l1"
    and b: "add_docker_files fs l1 = Inr l'"
    by (auto split: sum.splits)
  from append_if_absent_appends [OF a] obtain items added
    where l: "l = JArr items" and l1: "l1 = JArr (items @ added)" by blast
  from Cons.IH [OF b] l l1 show ?case by auto
qed

lemma apply_preferences_appends:
  assumes "apply_preferences s (Some p) = Inr s'"
  shows "\<exists>kvs l. s = JObj kvs \<and> map_of kvs ''structure'' = Some l \<and>
           (s' = s \<or> (\<exists>items added. l = JArr items \<and>
              s' = JObj (AList.update ''structure'' (JArr (items @ added)) kvs)))"
proof -
  from assms obtain kvs l l1 l2 l3 where s: "s = JObj kvs"
    and l: "map_of kvs ''structure'' = Some l"
    and a: "add_custom_folders (custom_folders p) l = Inr l1"
    and b: "(if include_docker p then add_docker_files docker_files l1 else Inr l1) = Inr l2"
    and c: "(if include_ci_cd p then append_if_absent ''.github'' github_node l2 else Inr l2)
              = Inr l3"
    and s': "s' = JObj (AList.update ''structure'' l3 kvs)"
    by (auto simp: apply_preferences_def split: json.splits option.splits sum.splits)
  have ab: "l1 = l \<or> (\<exists>items added. l = JArr items \<and> l1 = JArr (items @ added))"
    using add_custom_folders_appends [OF a] .
  have bc: "l2 = l1 \<or> (\<exists>items added. l1 = JArr items \<and> l2 = JArr (items @ added))"
    using b add_docker_files_appends [of docker_files l1 l2] by (auto split: if_splits)
  have cd: "l3 = l2 \<or> (\<exists>items added. l2 = JArr items \<and> l3 = JArr (items @ added))"
    using c append_if_absent_appends [of "''.github''" github_node l2 l3]
    by (auto split: if_splits)
  from ab bc have ac: "l2 = l \<or> (\<exists>items added. l = JArr items \<and> l2 = JArr (items @ added))"
    by (metis append.assoc json.inject(5))
  with cd have ad: "l3 = l \<or> (\<exists>items added. l = JArr items \<and> l3 = JArr (items @ added))"
    by (metis append.assoc json.inject(5))
  show ?thesis
  proof (cases "l3 = l")
    case True
    with l have "AList.update ''structure'' l3 kvs = kvs" by (simp add: update_triv)
    with s s' l show ?thesis by simp
  next
    case False
    with ad s s' l show ?thesis by auto
  qed
qed

text \<open>
  C6. \<^verbatim>\<open>apply_preferences\<close> only adds. Without preferences the structure is returned as
  it is. With preferences, whenever a structure is returned, it is the input with its
  top-level list extended at the end: every entry of the input is in the output, unchanged
  and at its position, the new entries come after them, and every other key of the dict
  is untouched (when the value under \<^verbatim>\<open>structure\<close> is not a list the input itself is
  returned). On a dict whose \<^verbatim>\<open>structure\<close> is a list of dicts, which every validated
  structure is, a structure is returned.
\<close>

theorem apply_preferences_additive:
  "apply_preferences s None = Inr s \<and>
   (\<forall>s'. apply_preferences s (Some p) = Inr s' \<longrightarrow>
      (\<exists>kvs l. s = JObj kvs \<and> map_of kvs ''structure'' = Some l \<and>
         (s' = s \<or> (\<exists>items added. l = JArr items \<and>
            s' = JObj (AList.update ''structure'' (JArr (items @ added)) kvs))))) \<and>
   (well_formed s \<longrightarrow> (\<exists>s'. apply_preferences s (Some p) = Inr s'))"
proof (intro conjI allI impI)
  show "apply_preferences s None = Inr s" by (simp add: apply_preferences_def)
next
  fix s' assume "apply_preferences s (Some p) = Inr s'"
  then show "\<exists>kvs l. s = JObj kvs \<and> map_of kvs ''structure'' = Some l \<and>
         (s' = s \<or> (\<exists>items added. l = JArr items \<and>
            s' = JObj (AList.update ''structure'' (JArr (items @ added)) kvs)))"
    by (rule apply_preferences_appends)
next
  assume "well_formed s"
  then obtain kvs items where "s = JObj kvs" "map_of kvs ''structure'' = Some (JArr items)"
    "list_all is_dict items"
    by (rule well_formedE)
  then show "\<exists>s'. apply_preferences s (Some p) = Inr s'"
    using apply_preferences_dicts by blast
qed

theorem apply_preferences_additive_witness:
  "well_formed example_structure \<and>
   apply_preferences example_structure None = Inr example_structure \<and>
   apply_preferences example_structure (Some example_preferences) =
     Inr (JObj [(''name'', JStr ''app''),
                (''structure'', JArr
                   ([file_node ''README.md'', file_node ''.gitignore''] @
                    [folder_node ''docs'' [], file_node ''Dockerfile'',
                     file_node ''docker-compose.yml'', file_node ''.dockerignore'',
                     github_node]))])"
proof -
  have w: "well_formed example_structure" by code_simp
  have v: "apply_preferences example_structure (Some example_preferences) =
     Inr (JObj [(''name'', JStr ''app''),
                (''structure'', JArr
                   ([file_node ''README.md'', file_node ''.gitignore''] @
                    [folder_node ''docs'' [], file_node ''Dockerfile'',
                     file_node ''docker-compose.yml'', file_node ''.dockerignore'',
                     github_node]))])"
    by code_simp
  from apply_preferences_additive [of example_structure example_preferences] w v
  show ?thesis by simp
qed

lemma top_level_update:
  "map_of kvs ''structure'' = Some l \<Longrightarrow>
     top_level (JObj (AList.update ''structure'' (JArr items) kvs)) = items"
  by (simp add: top_level_def update_conv')

text \<open>
  C5. \<^verbatim>\<open>apply_preferences\<close> is idempotent on a dict whose \<^verbatim>\<open>structure\<close> is a list of
  dicts, which every validated structure is: it returns a structure, and applying the
  same preferences to that structure returns it again, equal. No name that occurs at most
  once at the top level of the input occurs twice in the output; with \<^verbatim>\<open>include_docker\<close>
  and no top-level \<^verbatim>\<open>Dockerfile\<close> in the input there is exactly one in the output.
\<close>

theorem apply_preferences_idempotent:
  assumes "well_formed s"
  shows "\<exists>s'. apply_preferences s prefs = Inr s' \<and> apply_preferences s' prefs = Inr s' \<and>
           (\<forall>n. length (filter (named n) (top_level s'))
                  \<le> max 1 (length (filter (named n) (top_level s)))) \<and>
           (\<forall>p. prefs = Some p \<and> include_docker p \<and>
                  \<not> list_ex (named ''Dockerfile'') (top_level s) \<longrightarrow>
                  length (filter (named ''Dockerfile'') (top_level s')) = 1)"
proof (cases prefs)
  case None
  then show ?thesis by (simp add: apply_preferences_def)
next
  case (Some p)
  from assms obtain kvs items where s: "s = JObj kvs"
    and l: "map_of kvs ''structure'' = Some (JArr items)" and d: "list_all is_dict items"
    by (rule well_formedE)
  let ?items' = "fold add1 (additions p) items"
  let ?kvs' = "AList.update ''structure'' (JArr ?items') kvs"
  have ok: "steps_ok (additions p)" by (rule steps_ok_additions)
  have first: "apply_preferences s prefs = Inr (JObj ?kvs')"
    using s Some apply_preferences_dicts [OF l d] by simp
  have l': "map_of ?kvs' ''structure'' = Some (JArr ?items')"
    by (simp add: update_conv')
  have d': "list_all is_dict ?items'"
    using d steps_ok_dicts [OF ok] by (rule fold_add1_dicts)
  have second: "apply_preferences (JObj ?kvs') prefs = Inr (JObj ?kvs')"
    using Some apply_preferences_dicts [OF l' d'] by (simp add: fold_add1_idem [OF ok])
  have tl: "top_level (JObj ?kvs') = ?items'" using l by (rule top_level_update)
  have tl0: "top_level s = items" using s l by (simp add: top_level_def)
  have cnt: "\<And>n. length (filter (named n) ?items') =
       (if list_ex (named n) items then length (filter (named n) items)
        else if n \<in> fst ` set (additions p) then 1 else 0)"
    using count_named_fold_add1 [OF ok] .
  have dk: "include_docker p \<Longrightarrow> ''Dockerfile'' \<in> fst ` set (additions p)"
    by (simp add: additions_def docker_files_def image_Un)
  show ?thesis
    using first second Some
    by (intro exI [of _ "JObj ?kvs'"]) (auto simp: tl tl0 cnt dk)
qed

theorem apply_preferences_idempotent_witness:
  "well_formed example_structure \<and> include_docker example_preferences \<and>
   \<not> list_ex (named ''Dockerfile'') (top_level example_structure) \<and>
   (\<exists>s'. apply_preferences example_structure (Some example_preferences) = Inr s' \<and>
         apply_preferences s' (Some example_preferences) = Inr s' \<and>
         length (filter (named ''Dockerfile'') (top_level s')) = 1)"
proof -
  have w: "well_formed example_structure" by code_simp
  have d: "include_docker example_preferences" by code_simp
  have n: "\<not> list_ex (named ''Dockerfile'') (top_level example_structure)" by code_simp
  from apply_preferences_idempotent [OF w, of "Some example_preferences"] w d n
  show ?thesis by auto
qed

section \<open>Tree renderer: results\<close>

text \<open>
  C8. For the structure
  \<^verbatim>\<open>{"name":"app","structure":[{"type":"file","name":"a.txt"},{"type":"folder","name":"src","children":[{"type":"file","name":"b.txt"}]}]}\<close>
  the renderer returns exactly the four lines \<^verbatim>\<open>app/\<close>, \<^verbatim>\<open>a.txt\<close> behind
  \<^verbatim>\<open>U+251C U+2500 U+2500\<close> and a space, \<^verbatim>\<open>src/\<close> behind \<^verbatim>\<open>U+2514 U+2500 U+2500\<close> and a
  space, and \<^verbatim>\<open>b.txt\<close> behind four spaces, \<^verbatim>\<open>U+2514 U+2500 U+2500\<close> and a space, joined
  by line feeds. The text is written out as its UTF-8 bytes: \<^verbatim>\<open>U+251C\<close> is
  \<^verbatim>\<open>E2 94 9C\<close>, \<^verbatim>\<open>U+2514\<close> is \<^verbatim>\<open>E2 94 94\<close> and \<^verbatim>\<open>U+2500\<close> is \<^verbatim>\<open>E2 94 80\<close>. All names
  are strings, so the result does not depend on how other objects are formatted.
\<close>

theorem structure_to_tree_example:
  "structure_to_tree fmt
     (JObj [(''name'', JStr ''app''),
            (''structure'', JArr
               [JObj [(''type'', JStr ''file''), (''name'', JStr ''a.txt'')],
                JObj [(''type'', JStr ''folder''), (''name'', JStr ''src''),
                      (''children'', JArr
                         [JObj [(''type'', JStr ''file''), (''name'', JStr ''b.txt'')]])]])]) =
     Inr (''app/\<newline>'' @
          [CHR 0xE2, CHR 0x94, CHR 0x9C, CHR 0xE2, CHR 0x94, CHR 0x80, CHR 0xE2, CHR 0x94, CHR 0x80] @
          '' a.txt\<newline>'' @
          [CHR 0xE2, CHR 0x94, CHR 0x94, CHR 0xE2, CHR 0x94, CHR 0x80, CHR 0xE2, CHR 0x94, CHR 0x80] @
          '' src/\<newline>'' @
          ''    '' @
          [CHR 0xE2, CHR 0x94, CHR 0x94, CHR 0xE2, CHR 0x94, CHR 0x80, CHR 0xE2, CHR 0x94, CHR 0x80] @
          '' b.txt'')"
  by (simp add: structure_to_tree_def py_str_def indent_last_def branch_mid_def
        branch_last_def)

section \<open>Example ranker: results\<close>

lemma score_repos_total:
  "\<forall>r \<in> set catalog. encode (repo_text r) = Some (emb r) \<Longrightarrow>
     score_repos encode cosine q catalog = Some (map (\<lambda>r. (cosine q (emb r), r)) catalog)"
  by (induction catalog) simp_all

lemma insort_key_pairs:
  "insort_key fst (f x, x) (map (\<lambda>r. (f r, r)) ys) = map (\<lambda>r. (f r, r)) (insort_key f x ys)"
  by (induction ys) simp_all

lemma sort_key_pairs:
  "sort_key fst (map (\<lambda>r. (f r, r)) xs) = map (\<lambda>r. (f r, r)) (sort_key f xs)"
  by (induction xs) (simp_all add: insort_key_pairs)

lemma stable_sort_reverse_pairs:
  "map snd (stable_sort_reverse (map (\<lambda>r. (f r, r)) xs)) = ranked f xs"
proof -
  have "sort_key fst (rev (map (\<lambda>r. (f r, r)) xs)) = map (\<lambda>r. (f r, r)) (sort_key f (rev xs))"
    by (simp add: rev_map sort_key_pairs)
  then show ?thesis
    by (simp add: stable_sort_reverse_def ranked_def rev_map o_def)
qed

lemma slice_to_take: "\<exists>n. slice_to k xs = take n xs \<and> (0 \<le> k \<longrightarrow> n = nat k)"
  by (auto simp: slice_to_def)

lemma map_slice_to: "map g (slice_to k xs) = slice_to k (map g xs)"
  by (simp add: slice_to_def take_map)

lemma find_similar_repos_ranked:
  assumes "encode (project_desc @ '' '' @ join '' '' tech_stack) = Some q"
    and "\<forall>r \<in> set catalog. encode (repo_text r) = Some (emb r)"
  shows "find_similar_repos (Some encode) cosine stable_sort_reverse project_desc tech_stack
           catalog top_k =
           slice_to top_k (ranked (\<lambda>r. cosine q (emb r)) catalog)"
  using assms(1) score_repos_total [OF assms(2), of cosine q]
  by (simp add: find_similar_repos_def map_slice_to stable_sort_reverse_pairs)

lemma ranked_descending: "sorted_wrt (\<lambda>a b. f b \<le> f a) (ranked f xs)"
proof -
  have "sorted (map f (sort_key f (rev xs)))" by simp
  then have "sorted_wrt (\<lambda>a b. f a \<le> f b) (sort_key f (rev xs))"
    by (simp add: sorted_map)
  then show ?thesis by (simp add: ranked_def sorted_wrt_rev)
qed

lemma ranked_stable: "filter (\<lambda>r. f r = v) (ranked f xs) = filter (\<lambda>r. f r = v) xs"
  by (simp add: ranked_def rev_filter [symmetric] sort_key_stable)

lemma mset_ranked: "mset (ranked f xs) = mset xs"
  by (simp add: ranked_def)

text \<open>
  The ranking when the computed scores are values of a linear order and the sort is the
  stable one. When the sentence model encodes the query and every catalog entry, the
  returned list is a part of the catalog (\<open>rest\<close> holds the entries left out), has
  \<open>top_k\<close> entries when the catalog has as many, is in descending order of the computed
  score, holds no entry with a lower computed score than an entry left out, and keeps
  entries of equal computed score in catalog order. This says nothing of scores that are
  equal as real numbers and differ as computed floats, nor of \<^verbatim>\<open>nan\<close>.
\<close>

lemma find_similar_repos_stable_sort_ranking:
  assumes "encode (project_desc @ '' '' @ join '' '' tech_stack) = Some q"
    and "\<forall>r \<in> set catalog. encode (repo_text r) = Some (emb r)"
  shows "\<exists>rest.
           (let result = find_similar_repos (Some encode) cosine stable_sort_reverse
                           project_desc tech_stack catalog top_k;
                score = (\<lambda>r. cosine q (emb r))
            in mset (result @ rest) = mset catalog \<and>
               (0 \<le> top_k \<longrightarrow> length result = min (nat top_k) (length catalog)) \<and>
               sorted_wrt (\<lambda>a b. score b \<le> score a) result \<and>
               (\<forall>a \<in> set result. \<forall>b \<in> set rest. score b \<le> score a) \<and>
               (\<forall>v. prefix (filter (\<lambda>r. score r = v) result)
                           (filter (\<lambda>r. score r = v) catalog)))"
proof -
  let ?f = "\<lambda>r. cosine q (emb r)"
  let ?rk = "ranked ?f catalog"
  obtain n where n: "slice_to top_k ?rk = take n ?rk" and nk: "0 \<le> top_k \<longrightarrow> n = nat top_k"
    using slice_to_take by blast
  have res: "find_similar_repos (Some encode) cosine stable_sort_reverse project_desc
               tech_stack catalog top_k = take n ?rk"
    using find_similar_repos_ranked [OF assms, of cosine top_k] n by (simp only:)
  have srt: "sorted_wrt (\<lambda>a b. ?f b \<le> ?f a) (take n ?rk @ drop n ?rk)"
    using ranked_descending [of ?f catalog] by simp
  have a: "mset (take n ?rk @ drop n ?rk) = mset catalog"
    by (simp add: mset_ranked)
  have len: "length ?rk = length catalog"
    using mset_ranked [of ?f catalog] by (metis size_mset)
  have b: "0 \<le> top_k \<longrightarrow> length (take n ?rk) = min (nat top_k) (length catalog)"
    using nk len by auto
  have c: "sorted_wrt (\<lambda>a b. ?f b \<le> ?f a) (take n ?rk)"
    using srt unfolding sorted_wrt_append by blast
  have d: "\<forall>a \<in> set (take n ?rk). \<forall>b \<in> set (drop n ?rk). ?f b \<le> ?f a"
    using srt unfolding sorted_wrt_append by blast
  have e: "prefix (filter (\<lambda>r. ?f r = v) (take n ?rk)) (filter (\<lambda>r. ?f r = v) catalog)" for v
  proof -
    have "prefix (filter (\<lambda>r. ?f r = v) (take n ?rk)) (filter (\<lambda>r. ?f r = v) ?rk)"
      by (intro filter_mono_prefix take_is_prefix)
    then show ?thesis by (simp add: ranked_stable)
  qed
  show ?thesis
    unfolding Let_def res
    by (intro exI [of _ "drop n ?rk"] conjI allI a b c d e)
qed

lemma find_similar_repos_tie_example:
  "find_similar_repos (Some Some) (\<lambda>q e. length e) stable_sort_reverse ''x'' [] tie_catalog 2 =
     [\<lparr>repo_description = ''bb'', repo_tech_stack = [], repo_structure = JNull\<rparr>,
      \<lparr>repo_description = ''cc'', repo_tech_stack = [], repo_structure = JNull\<rparr>]"
  by code_simp

section \<open>Cache key: results\<close>

lemma sort_mset_eq: "mset xs = mset ys \<Longrightarrow> sort xs = sort (ys :: 'a::linorder list)"
  by (rule sort_key_eq_sort_key) simp_all

text \<open>
  C3. \<^verbatim>\<open>str.lower\<close> and \<^verbatim>\<open>str.strip\<close> are the parameters \<open>lower\<close> and \<open>strip\<close>, of which
  nothing is assumed. Two tech-stack lists whose entries, lower-cased and trimmed, are
  the same up to order give the same key, for every description and preferences value,
  whatever the encoder and the digest are. In the instance the lists are
  \<^verbatim>\<open>['React','node.js']\<close> and \<^verbatim>\<open>['Node.js',' react']\<close>.
\<close>

theorem make_cache_key_tech_stack_invariant:
  assumes "mset (map (\<lambda>tech. strip (lower tech)) tech_stack1) =
           mset (map (\<lambda>tech. strip (lower tech)) tech_stack2)"
  shows "make_cache_key encode digest lower strip project_desc tech_stack1 prefs =
         make_cache_key encode digest lower strip project_desc tech_stack2 prefs"
  using sort_mset_eq [OF assms] by (simp add: make_cache_key_def)

theorem make_cache_key_tech_stack_invariant_witness:
  \<open>mset (map (\<lambda>tech. ascii_strip (ascii_lower tech)) [''React'', ''node.js'']) =
   mset (map (\<lambda>tech. ascii_strip (ascii_lower tech)) [''Node.js'', '' react'']) \<and>
   make_cache_key json_dumps (\<lambda>s. s) ascii_lower ascii_strip ''A shop''
     [''React'', ''node.js''] None =
   make_cache_key json_dumps (\<lambda>s. s) ascii_lower ascii_strip ''A shop''
     [''Node.js'', '' react''] None \<and>
   make_cache_key json_dumps (\<lambda>s. s) ascii_lower ascii_strip ''A shop''
     [''Node.js'', '' react''] None =
   ''{"prefs": {}, "project_desc": "a shop", "tech_stack": ["node.js", "react"]}''\<close>
proof -
  have a: "map (\<lambda>tech. ascii_strip (ascii_lower tech)) [''React'', ''node.js''] =
           [''react'', ''node.js'']"
    by code_simp
  have b: "map (\<lambda>tech. ascii_strip (ascii_lower tech)) [''Node.js'', '' react''] =
           [''node.js'', ''react'']"
    by code_simp
  have h: "mset (map (\<lambda>tech. ascii_strip (ascii_lower tech)) [''React'', ''node.js'']) =
           mset (map (\<lambda>tech. ascii_strip (ascii_lower tech)) [''Node.js'', '' react''])"
    unfolding a b by simp
  have v: \<open>make_cache_key json_dumps (\<lambda>s. s) ascii_lower ascii_strip ''A shop''
             [''Node.js'', '' react''] None =
           ''{"prefs": {}, "project_desc": "a shop", "tech_stack": ["node.js", "react"]}''\<close>
    by code_simp
  from make_cache_key_tech_stack_invariant [where strip = ascii_strip
      and lower = ascii_lower, OF h] h v
  show ?thesis by blast
qed

section \<open>Orchestrator: results\<close>

lemma generations_log_call:
  "generations (log_call c w) = generations w + (if is_generate c then 1 else 0)"
  by (simp add: generations_def log_call_def)

lemma cache_db_log_call: "cache_db (log_call c w) = cache_db w"
  by (simp add: log_call_def)

lemma suggest_structure_hit:
  "truthy (get_cached_structure (cache_db w) (request_key sv project_desc tech_stack prefs)) \<Longrightarrow>
     suggest_structure sv w project_id project_desc tech_stack prefs =
       (get_cached_structure (cache_db w) (request_key sv project_desc tech_stack prefs), w)"
  by (simp add: suggest_structure_def)

lemma suggest_structure_fail:
  assumes "\<not> truthy (get_cached_structure (cache_db w)
                      (request_key sv project_desc tech_stack prefs))"
    and "pipeline_fails sv w project_desc tech_stack prefs"
  shows "fst (suggest_structure sv w project_id project_desc tech_stack prefs) = JNull"
    and "cache_db (snd (suggest_structure sv w project_id project_desc tech_stack prefs))
           = cache_db w"
  using assms
  by (auto simp: suggest_structure_def pipeline_fails_def Let_def cache_db_log_call
           split: option.splits sum.splits)

lemma suggest_structure_success:
  assumes "\<not> truthy (get_cached_structure (cache_db w)
                      (request_key sv project_desc tech_stack prefs))"
    and "\<not> pipeline_fails sv w project_desc tech_stack prefs"
  shows "\<exists>response s.
           generate_structure sv (generations w)
             (request_prompt sv project_desc tech_stack prefs) = Some response \<and>
           parse_llm_output (loads sv) (str_strip sv) response = Inr s \<and>
           validate_structure s = Inr True \<and>
           (case apply_preferences s prefs of
              Inl e \<Rightarrow>
                suggest_structure sv w project_id project_desc tech_stack prefs =
                  (JNull, w\<lparr>calls := calls w @
                     [Generate (request_prompt sv project_desc tech_stack prefs),
                      Parse response,
                      Validate s,
                      Apply s]\<rparr>)
            | Inr s' \<Rightarrow>
                suggest_structure sv w project_id project_desc tech_stack prefs =
                  (s', \<lparr>cache_db = cache_structure (cache_db w)
                          (request_key sv project_desc tech_stack prefs) project_id s'
                          (now_isoformat sv (length (cache_db w))),
                        calls = calls w @
                     [Generate (request_prompt sv project_desc tech_stack prefs),
                      Parse response,
                      Validate s,
                      Apply s]\<rparr>))"
  using assms
  by (auto simp: suggest_structure_def pipeline_fails_def Let_def log_call_def
           split: option.splits sum.splits)

lemma validated_truthy: "validate_structure s = Inr True \<Longrightarrow> truthy s"
  by (auto simp: validate_structure_true_iff)

lemma applied_truthy:
  assumes "validate_structure s = Inr True" and "apply_preferences s prefs = Inr s'"
  shows "truthy s'"
proof (cases prefs)
  case None
  with assms show ?thesis by (simp add: apply_preferences_def validated_truthy)
next
  case (Some p)
  with assms(2) apply_preferences_appends [of s p s'] validated_truthy [OF assms(1)]
  show ?thesis by auto
qed

lemma suggest_structure_miss_cases:
  assumes "\<not> truthy (get_cached_structure (cache_db w)
                      (request_key sv project_desc tech_stack prefs))"
    and "\<not> pipeline_fails sv w project_desc tech_stack prefs"
  obtains (rejected) response s e where
      "generate_structure sv (generations w)
         (request_prompt sv project_desc tech_stack prefs) = Some response"
      "parse_llm_output (loads sv) (str_strip sv) response = Inr s"
      "validate_structure s = Inr True"
      "apply_preferences s prefs = Inl e"
      "suggest_structure sv w project_id project_desc tech_stack prefs =
         (JNull, w\<lparr>calls := calls w @
            [Generate (request_prompt sv project_desc tech_stack prefs),
             Parse response,
             Validate s,
             Apply s]\<rparr>)"
  | (stored) response s s' where
      "generate_structure sv (generations w)
         (request_prompt sv project_desc tech_stack prefs) = Some response"
      "parse_llm_output (loads sv) (str_strip sv) response = Inr s"
      "validate_structure s = Inr True"
      "apply_preferences s prefs = Inr s'"
      "suggest_structure sv w project_id project_desc tech_stack prefs =
         (s', \<lparr>cache_db = cache_structure (cache_db w)
                 (request_key sv project_desc tech_stack prefs) project_id s'
                 (now_isoformat sv (length (cache_db w))),
               calls = calls w @
            [Generate (request_prompt sv project_desc tech_stack prefs),
             Parse response,
             Validate s,
             Apply s]\<rparr>)"
proof -
  from suggest_structure_success [OF assms, of project_id]
  obtain response s where
    g: "generate_structure sv (generations w)
          (request_prompt sv project_desc tech_stack prefs) = Some response"
    and ps: "parse_llm_output (loads sv) (str_strip sv) response = Inr s"
    and v: "validate_structure s = Inr True"
    and c: "case apply_preferences s prefs of
              Inl e \<Rightarrow>
                suggest_structure sv w project_id project_desc tech_stack prefs =
                  (JNull, w\<lparr>calls := calls w @
                     [Generate (request_prompt sv project_desc tech_stack prefs),
                      Parse response,
                      Validate s,
                      Apply s]\<rparr>)
            | Inr s' \<Rightarrow>
                suggest_structure sv w project_id project_desc tech_stack prefs =
                  (s', \<lparr>cache_db = cache_structure (cache_db w)
                          (request_key sv project_desc tech_stack prefs) project_id s'
                          (now_isoformat sv (length (cache_db w))),
                        calls = calls w @
                     [Generate (request_prompt sv project_desc tech_stack prefs),
                      Parse response,
                      Validate s,
                      Apply s]\<rparr>)"
    by blast
  show ?thesis
  proof (cases "apply_preferences s prefs")
    case (Inl e)
    with c g ps v show ?thesis by (intro rejected [of response s e]) simp_all
  next
    case (Inr s')
    with c g ps v show ?thesis by (intro stored [of response s s']) simp_all
  qed
qed

text \<open>
  C2. On a cache miss, when the generation service fails or answers nothing, or the
  parser raises on the answer or parses it to nothing, or the validator rejects the
  parsed object or fails on it,
  \<^verbatim>\<open>suggest_structure\<close> returns \<^verbatim>\<open>None\<close> and the store is what it was. Whenever the store
  has changed, the parsed answer was validated, the preferences were applied to it
  without error, the result of that is what is returned, and it is the one entry added
  to the store.
\<close>

theorem suggest_structure_failure_no_cache_write:
  assumes "\<not> truthy (get_cached_structure (cache_db w)
                      (request_key sv project_desc tech_stack prefs))"
  shows "(pipeline_fails sv w project_desc tech_stack prefs \<longrightarrow>
            fst (suggest_structure sv w project_id project_desc tech_stack prefs) = JNull \<and>
            cache_db (snd (suggest_structure sv w project_id project_desc tech_stack prefs))
              = cache_db w) \<and>
         (cache_db (snd (suggest_structure sv w project_id project_desc tech_stack prefs))
            \<noteq> cache_db w \<longrightarrow>
            (\<exists>response s s'.
               generate_structure sv (generations w)
                 (request_prompt sv project_desc tech_stack prefs) = Some response \<and>
               parse_llm_output (loads sv) (str_strip sv) response = Inr s \<and>
               validate_structure s = Inr True \<and>
               apply_preferences s prefs = Inr s' \<and>
               fst (suggest_structure sv w project_id project_desc tech_stack prefs) = s' \<and>
               cache_db (snd (suggest_structure sv w project_id project_desc tech_stack prefs))
                 = cache_structure (cache_db w)
                     (request_key sv project_desc tech_stack prefs) project_id s'
                     (now_isoformat sv (length (cache_db w)))))"
proof (intro conjI impI)
  assume f: "pipeline_fails sv w project_desc tech_stack prefs"
  show "fst (suggest_structure sv w project_id project_desc tech_stack prefs) = JNull"
    using assms f by (rule suggest_structure_fail)
  show "cache_db (snd (suggest_structure sv w project_id project_desc tech_stack prefs))
          = cache_db w"
    using assms f by (rule suggest_structure_fail)
next
  assume ch: "cache_db (snd (suggest_structure sv w project_id project_desc tech_stack prefs))
                \<noteq> cache_db w"
  then have nf: "\<not> pipeline_fails sv w project_desc tech_stack prefs"
    using suggest_structure_fail(2) [OF assms] by blast
  from assms nf show "\<exists>response s s'.
               generate_structure sv (generations w)
                 (request_prompt sv project_desc tech_stack prefs) = Some response \<and>
               parse_llm_output (loads sv) (str_strip sv) response = Inr s \<and>
               validate_structure s = Inr True \<and>
               apply_preferences s prefs = Inr s' \<and>
               fst (suggest_structure sv w project_id project_desc tech_stack prefs) = s' \<and>
               cache_db (snd (suggest_structure sv w project_id project_desc tech_stack prefs))
                 = cache_structure (cache_db w)
                     (request_key sv project_desc tech_stack prefs) project_id s'
                     (now_isoformat sv (length (cache_db w)))"
  proof (cases rule: suggest_structure_miss_cases [where project_id = project_id])
    case (rejected response s e)
    with ch show ?thesis by simp
  next
    case (stored response s s')
    then show ?thesis by (intro exI [of _ response] exI [of _ s] exI [of _ s']) simp
  qed
qed

theorem suggest_structure_failure_no_cache_write_witness:
  "\<not> truthy (get_cached_structure (cache_db empty_world)
               (request_key rejecting_services ''A shop'' [''React''] None)) \<and>
   pipeline_fails rejecting_services empty_world ''A shop'' [''React''] None \<and>
   fst (suggest_structure rejecting_services empty_world ''p1'' ''A shop'' [''React''] None)
     = JNull \<and>
   cache_db (snd (suggest_structure rejecting_services empty_world ''p1'' ''A shop''
                    [''React''] None)) = cache_db empty_world \<and>
   \<not> truthy (get_cached_structure (cache_db empty_world)
               (request_key example_services ''A shop'' [''React''] None)) \<and>
   cache_db (snd (suggest_structure example_services empty_world ''p1'' ''A shop''
                    [''React''] None)) \<noteq> cache_db empty_world \<and>
   validate_structure (fst (suggest_structure example_services empty_world ''p1'' ''A shop''
                              [''React''] None)) = Inr True"
proof -
  have m: "\<not> truthy (get_cached_structure (cache_db empty_world)
               (request_key rejecting_services ''A shop'' [''React''] None))"
    by (simp add: empty_world_def get_cached_structure_def)
  have f: "pipeline_fails rejecting_services empty_world ''A shop'' [''React''] None"
    by code_simp
  have m': "\<not> truthy (get_cached_structure (cache_db empty_world)
               (request_key example_services ''A shop'' [''React''] None))"
    by (simp add: empty_world_def get_cached_structure_def)
  have c: "cache_db (snd (suggest_structure example_services empty_world ''p1'' ''A shop''
                    [''React''] None)) \<noteq> cache_db empty_world"
    by code_simp
  have v: "validate_structure (fst (suggest_structure example_services empty_world ''p1''
                              ''A shop'' [''React''] None)) = Inr True"
    by code_simp
  from suggest_structure_failure_no_cache_write [OF m, of "''p1''"] f
  have "fst (suggest_structure rejecting_services empty_world ''p1'' ''A shop'' [''React''] None)
          = JNull \<and>
        cache_db (snd (suggest_structure rejecting_services empty_world ''p1'' ''A shop''
                    [''React''] None)) = cache_db empty_world"
    by (rule conjunct1 [THEN mp])
  with m f m' c v show ?thesis by (intro conjI) simp_all
qed

text \<open>
  C4. When the lookup under the derived key returns a structure (an object that is
  true, as every structure the pipeline stores is), \<^verbatim>\<open>suggest_structure\<close> returns it and
  changes nothing: no call to the generation service, the parser or the validator is
  recorded. Hence two calls with the same arguments, the first of which finds no entry
  under its key and succeeds, make exactly one call to the generation service: the
  second call returns the structure of the first and leaves the state as the first
  left it.
\<close>

theorem suggest_structure_cache_hit:
  "(truthy (get_cached_structure (cache_db w)
              (request_key sv project_desc tech_stack prefs)) \<longrightarrow>
      suggest_structure sv w project_id project_desc tech_stack prefs =
        (get_cached_structure (cache_db w) (request_key sv project_desc tech_stack prefs), w)) \<and>
   (filter (\<lambda>e. entry_cache_key e = request_key sv project_desc tech_stack prefs)
      (cache_db w) = [] \<and>
    suggest_structure sv w project_id project_desc tech_stack prefs = (r1, w1) \<and>
    r1 \<noteq> JNull \<and>
    suggest_structure sv w1 project_id project_desc tech_stack prefs = (r2, w2) \<longrightarrow>
      r2 = r1 \<and> w2 = w1 \<and> generations w2 = generations w + 1)"
proof (intro conjI impI)
  assume "truthy (get_cached_structure (cache_db w)
                    (request_key sv project_desc tech_stack prefs))"
  then show "suggest_structure sv w project_id project_desc tech_stack prefs =
        (get_cached_structure (cache_db w) (request_key sv project_desc tech_stack prefs), w)"
    by (rule suggest_structure_hit)
next
  let ?key = "request_key sv project_desc tech_stack prefs"
  assume a: "filter (\<lambda>e. entry_cache_key e = ?key) (cache_db w) = [] \<and>
    suggest_structure sv w project_id project_desc tech_stack prefs = (r1, w1) \<and>
    r1 \<noteq> JNull \<and>
    suggest_structure sv w1 project_id project_desc tech_stack prefs = (r2, w2)"
  then have none: "filter (\<lambda>e. entry_cache_key e = ?key) (cache_db w) = []"
    and first: "suggest_structure sv w project_id project_desc tech_stack prefs = (r1, w1)"
    and ok: "r1 \<noteq> JNull"
    and second: "suggest_structure sv w1 project_id project_desc tech_stack prefs = (r2, w2)"
    by simp_all
  from none have miss: "\<not> truthy (get_cached_structure (cache_db w) ?key)"
    by (simp add: get_cached_structure_def)
  have nf: "\<not> pipeline_fails sv w project_desc tech_stack prefs"
    using suggest_structure_fail(1) [OF miss, of project_id] first ok by auto
  let ?w1 = "\<lambda>response s. \<lparr>cache_db = cache_structure (cache_db w) ?key project_id r1
                       (now_isoformat sv (length (cache_db w))),
                  calls = calls w @
                     [Generate (request_prompt sv project_desc tech_stack prefs),
                      Parse response,
                      Validate s,
                      Apply s]\<rparr>"
  from miss nf have "\<exists>response s.
      validate_structure s = Inr True \<and>
      apply_preferences s prefs = Inr r1 \<and>
      w1 = ?w1 response s"
  proof (cases rule: suggest_structure_miss_cases [where project_id = project_id])
    case (rejected response s e)
    with first ok show ?thesis by simp
  next
    case (stored response s s')
    from stored(5) first have "s' = r1" and "w1 = ?w1 response s" by auto
    with stored(3,4) show ?thesis by (intro exI [of _ response] exI [of _ s]) simp
  qed
  then obtain response s where
    v: "validate_structure s = Inr True"
    and ap: "apply_preferences s prefs = Inr r1"
    and w1: "w1 = ?w1 response s"
    by blast
  have t: "truthy r1" using v ap by (rule applied_truthy)
  have look: "get_cached_structure (cache_db w1) ?key = r1"
    using none by (simp add: w1 get_cached_structure_def cache_structure_def)
  have "suggest_structure sv w1 project_id project_desc tech_stack prefs = (r1, w1)"
    using suggest_structure_hit [of w1 sv project_desc tech_stack prefs project_id] t look
    by simp
  with second have r: "r2 = r1" "w2 = w1" by simp_all
  have "generations w1 = generations w + 1"
    by (simp add: w1 generations_def)
  with r show "r2 = r1" and "w2 = w1" and "generations w2 = generations w + 1"
    by simp_all
qed

theorem suggest_structure_cache_hit_witness:
  "(let first = suggest_structure example_services empty_world ''p1'' ''A shop'' [''React'']
                  (Some example_preferences);
        second = suggest_structure example_services (snd first) ''p1'' ''A shop'' [''React'']
                  (Some example_preferences)
    in filter (\<lambda>e. entry_cache_key e =
                 request_key example_services ''A shop'' [''React''] (Some example_preferences))
         (cache_db empty_world) = [] \<and>
       fst first \<noteq> JNull \<and>
       truthy (get_cached_structure (cache_db (snd first))
                 (request_key example_services ''A shop'' [''React''] (Some example_preferences))) \<and>
       fst second = fst first \<and> snd second = snd first \<and>
       generations (snd second) = 1)"
proof -
  let ?first = "suggest_structure example_services empty_world ''p1'' ''A shop'' [''React'']
                  (Some example_preferences)"
  let ?second = "suggest_structure example_services (snd ?first) ''p1'' ''A shop'' [''React'']
                  (Some example_preferences)"
  let ?key = "request_key example_services ''A shop'' [''React''] (Some example_preferences)"
  have a: "filter (\<lambda>e. entry_cache_key e = ?key) (cache_db empty_world) = []"
    by (simp add: empty_world_def)
  have b: "fst ?first \<noteq> JNull" by code_simp
  have t: "truthy (get_cached_structure (cache_db (snd ?first)) ?key)" by code_simp
  have g0: "generations empty_world = 0" by (simp add: empty_world_def generations_def)
  have hyp: "filter (\<lambda>e. entry_cache_key e = ?key) (cache_db empty_world) = [] \<and>
      ?first = (fst ?first, snd ?first) \<and> fst ?first \<noteq> JNull \<and>
      ?second = (fst ?second, snd ?second)"
    using a b by simp
  have "fst ?second = fst ?first \<and> snd ?second = snd ?first \<and>
        generations (snd ?second) = generations empty_world + 1"
    by (rule suggest_structure_cache_hit
         [of empty_world example_services "''A shop''" "[''React'']"
             "Some example_preferences" "''p1''" "fst ?first" "snd ?first" "fst ?second"
             "snd ?second", THEN conjunct2, THEN mp, OF hyp])
  then have r: "fst ?second = fst ?first" and w: "snd ?second = snd ?first"
    and g: "generations (snd ?second) = generations empty_world + 1"
    by blast+
  from g g0 have g1: "generations (snd ?second) = 1" by simp
  from a b t r w g1 show ?thesis unfolding Let_def by blast
qed

lemma suggest_structure_keeps_truthy:
  assumes "list_all (\<lambda>e. truthy (entry_structure e)) (cache_db w)"
  shows "list_all (\<lambda>e. truthy (entry_structure e))
           (cache_db (snd (suggest_structure sv w project_id project_desc tech_stack prefs)))"
proof (cases "truthy (get_cached_structure (cache_db w)
                        (request_key sv project_desc tech_stack prefs))")
  case True
  with assms show ?thesis by (simp add: suggest_structure_hit)
next
  case miss: False
  show ?thesis
  proof (cases "pipeline_fails sv w project_desc tech_stack prefs")
    case True
    with assms suggest_structure_fail(2) [OF miss] show ?thesis by simp
  next
    case False
    from miss False show ?thesis
    proof (cases rule: suggest_structure_miss_cases [where project_id = project_id])
      case (rejected response s e)
      with assms show ?thesis by simp
    next
      case (stored response s s')
      with assms applied_truthy [OF stored(3,4)] show ?thesis
        by (simp add: cache_structure_def)
    qed
  qed
qed

section \<open>Output parser: results\<close>

lemma brace_span_found:
  assumes "CHR ''{'' \<notin> set pre" and "CHR ''}'' \<notin> set post"
  shows "brace_span (pre @ ''{'' @ mid @ ''}'' @ post) = Some (''{'' @ mid @ ''}'')"
proof -
  have "\<And>x. x \<in> set pre \<Longrightarrow> x \<noteq> CHR ''{''" using assms(1) by auto
  then have d: "dropWhile (\<lambda>c. c \<noteq> CHR ''{'') (pre @ ''{'' @ mid @ ''}'' @ post)
             = ''{'' @ mid @ ''}'' @ post"
    by (simp add: dropWhile_append2)
  have "dropWhile (\<lambda>c. c \<noteq> CHR ''}'') (rev post @ CHR ''}'' # rev mid)
          = dropWhile (\<lambda>c. c \<noteq> CHR ''}'') (CHR ''}'' # rev mid)"
    using assms(2) by (intro dropWhile_append2) auto
  then have "dropWhile (\<lambda>c. c \<noteq> CHR ''}'') (rev post @ CHR ''}'' # rev mid)
               = CHR ''}'' # rev mid"
    by simp
  then have "rev (dropWhile (\<lambda>c. c \<noteq> CHR ''}'') (rev (mid @ ''}'' @ post))) = mid @ ''}''"
    by simp
  with d show ?thesis by (simp add: brace_span_def)
qed

lemma brace_span_none:
  assumes "\<nexists>a b c. text = a @ ''{'' @ b @ ''}'' @ c"
  shows "brace_span text = None"
proof (rule ccontr)
  assume "brace_span text \<noteq> None"
  then obtain c0 rest where
    d: "dropWhile (\<lambda>c. c \<noteq> CHR ''{'') text = c0 # rest" and m: "CHR ''}'' \<in> set rest"
    by (auto simp: brace_span_def split: list.splits if_splits)
  from d have "c0 = CHR ''{''"
    using hd_dropWhile [of "\<lambda>c. c \<noteq> CHR ''{''" "text"] by force
  moreover from m obtain b c where "rest = b @ CHR ''}'' # c"
    by (auto dest: split_list)
  moreover have "text = takeWhile (\<lambda>c. c \<noteq> CHR ''{'') text @ dropWhile (\<lambda>c. c \<noteq> CHR ''{'') text"
    by simp
  ultimately have "text = takeWhile (\<lambda>c. c \<noteq> CHR ''{'') text @ ''{'' @ b @ ''}'' @ c"
    using d by simp
  with assms show False by blast
qed

text \<open>
  C7, as stated, fails at the text \<^verbatim>\<open>null\<close>: it holds no brace, the trimmed text is
  the text itself and is valid JSON, and the function returns \<^verbatim>\<open>None\<close>, which is also
  what it returns when parsing fails.
\<close>

theorem parse_llm_output_null_counterexample:
  "json_loads 100 ''null'' = Inr JNull \<and> brace_span ''null'' = None \<and>
   ascii_strip ''null'' = ''null'' \<and>
   parse_llm_output (json_loads 100) ascii_strip ''null'' = Inr JNull"
  by code_simp

text \<open>
  C7, amended. When the text holds a \<^verbatim>\<open>{\<close> with a \<^verbatim>\<open>}\<close> behind it, the function
  decodes the span from the first \<^verbatim>\<open>{\<close> to the last \<^verbatim>\<open>}\<close> of the text; otherwise it
  decodes the trimmed text. It makes this one attempt only. It returns the decoded
  object when there is one, \<^verbatim>\<open>None\<close> when the decoder raises \<^verbatim>\<open>JSONDecodeError\<close>, and
  lets any other exception of the decoder through. So it returns \<^verbatim>\<open>None\<close> exactly when
  the attempt raises \<^verbatim>\<open>JSONDecodeError\<close> or decodes to \<^verbatim>\<open>null\<close>, and it raises \<open>e\<close>
  exactly when the attempt raises \<open>e\<close> and \<open>e\<close> is not \<^verbatim>\<open>JSONDecodeError\<close>. The decoder
  and \<^verbatim>\<open>str.strip\<close> are arbitrary. In the instance, with the decoder of the \<^verbatim>\<open>json\<close>
  module, the answer wrapped in prose parses to \<^verbatim>\<open>{"name":"x","structure":[]}\<close> and
  \<^verbatim>\<open>not json at all\<close> gives \<^verbatim>\<open>None\<close>.
\<close>

theorem parse_llm_output_attempts:
  "(CHR ''{'' \<notin> set pre \<and> CHR ''}'' \<notin> set post \<longrightarrow>
      parse_llm_output decode strip (pre @ ''{'' @ mid @ ''}'' @ post) =
        (case decode (''{'' @ mid @ ''}'') of
           Inr v \<Rightarrow> Inr v
         | Inl e \<Rightarrow> if e = JSONDecodeError then Inr JNull else Inl e)) \<and>
   ((\<nexists>a b c. text = a @ ''{'' @ b @ ''}'' @ c) \<longrightarrow>
      parse_llm_output decode strip text =
        (case decode (strip text) of
           Inr v \<Rightarrow> Inr v
         | Inl e \<Rightarrow> if e = JSONDecodeError then Inr JNull else Inl e)) \<and>
   (parse_llm_output decode strip text = Inr JNull \<longleftrightarrow>
      decode (case brace_span text of Some json_str \<Rightarrow> json_str | None \<Rightarrow> strip text)
        \<in> {Inl JSONDecodeError, Inr JNull}) \<and>
   (parse_llm_output decode strip text = Inl e \<longleftrightarrow>
      e \<noteq> JSONDecodeError \<and>
      decode (case brace_span text of Some json_str \<Rightarrow> json_str | None \<Rightarrow> strip text)
        = Inl e)"
proof (intro conjI impI)
  assume "CHR ''{'' \<notin> set pre \<and> CHR ''}'' \<notin> set post"
  then have "brace_span (pre @ ''{'' @ mid @ ''}'' @ post) = Some (''{'' @ mid @ ''}'')"
    using brace_span_found by blast
  then show "parse_llm_output decode strip (pre @ ''{'' @ mid @ ''}'' @ post) =
        (case decode (''{'' @ mid @ ''}'') of
           Inr v \<Rightarrow> Inr v
         | Inl e \<Rightarrow> if e = JSONDecodeError then Inr JNull else Inl e)"
    by (simp add: parse_llm_output_def)
next
  assume "\<nexists>a b c. text = a @ ''{'' @ b @ ''}'' @ c"
  then have "brace_span text = None" by (rule brace_span_none)
  then show "parse_llm_output decode strip text =
        (case decode (strip text) of
           Inr v \<Rightarrow> Inr v
         | Inl e \<Rightarrow> if e = JSONDecodeError then Inr JNull else Inl e)"
    by (simp add: parse_llm_output_def)
next
  show "parse_llm_output decode strip text = Inr JNull \<longleftrightarrow>
      decode (case brace_span text of Some json_str \<Rightarrow> json_str | None \<Rightarrow> strip text)
        \<in> {Inl JSONDecodeError, Inr JNull}"
    by (auto simp: parse_llm_output_def split: option.splits sum.splits)
next
  show "parse_llm_output decode strip text = Inl e \<longleftrightarrow>
      e \<noteq> JSONDecodeError \<and>
      decode (case brace_span text of Some json_str \<Rightarrow> json_str | None \<Rightarrow> strip text)
        = Inl e"
    by (auto simp: parse_llm_output_def split: option.splits sum.splits)
qed

theorem parse_llm_output_attempts_witness:
  \<open>CHR ''{'' \<notin> set ''Here is your structure:\<newline>'' \<and> CHR ''}'' \<notin> set ''\<newline>Enjoy!'' \<and>
   parse_llm_output (json_loads 100) ascii_strip
     (''Here is your structure:\<newline>'' @ ''{'' @ ''"name":"x","structure":[]'' @ ''}'' @
      ''\<newline>Enjoy!'') = Inr (JObj [(''name'', JStr ''x''), (''structure'', JArr [])]) \<and>
   (\<nexists>a b c. ''not json at all'' = a @ ''{'' @ b @ ''}'' @ c) \<and>
   parse_llm_output (json_loads 100) ascii_strip ''not json at all'' = Inr JNull \<and>
   json_loads 100 ''not json at all'' = Inl JSONDecodeError\<close>
proof -
  have p: \<open>CHR ''{'' \<notin> set ''Here is your structure:\<newline>'' \<and> CHR ''}'' \<notin> set ''\<newline>Enjoy!''\<close>
    by simp
  have n: "\<nexists>a b c. ''not json at all'' = a @ ''{'' @ b @ ''}'' @ c"
  proof
    assume "\<exists>a b c. ''not json at all'' = a @ ''{'' @ b @ ''}'' @ c"
    then obtain a b c where "''not json at all'' = a @ ''{'' @ b @ ''}'' @ c" by blast
    then have "CHR ''{'' \<in> set ''not json at all''" by (metis append_Cons in_set_conv_decomp)
    then show False by simp
  qed
  have d1: \<open>json_loads 100 (''{'' @ ''"name":"x","structure":[]'' @ ''}'') =
             Inr (JObj [(''name'', JStr ''x''), (''structure'', JArr [])])\<close>
    by code_simp
  have d2: "json_loads 100 (ascii_strip ''not json at all'') = Inl JSONDecodeError"
    by code_simp
  have d3: "json_loads 100 ''not json at all'' = Inl JSONDecodeError" by code_simp
  from parse_llm_output_attempts
         [of "''Here is your structure:\<newline>''" "''\<newline>Enjoy!''" "json_loads 100" ascii_strip
             \<open>''"name":"x","structure":[]''\<close> "''not json at all''"]
       p n d1 d2 d3
  show ?thesis by simp
qed

end
